theory Spec2Isabelle
  imports Main "HOL-Library.AList" "HOL-Library.Char_ord" "HOL-Library.List_Lexorder"
begin

section \<open>Strings, errors and dictionaries\<close>

text \<open>
  The program is \<^verbatim>\<open>blue_archive/get_resources_v2.py\<close>. A Python \<^verbatim>\<open>str\<close> is modelled
  as a \<^typ>\<open>string\<close> holding its UTF-8 bytes. Equality, concatenation, emptiness,
  the code-point order used by \<^verbatim>\<open>sorted\<close>, and searching for or splitting at an ASCII
  separator all agree between the two views. The three operations of the source that
  depend on the Unicode tables (\<^verbatim>\<open>upper\<close>, \<^verbatim>\<open>lower\<close>, \<^verbatim>\<open>strip\<close>) are modelled on ASCII:
  bytes from 0x80 on are left as they are.

  A raised exception is a value of type \<open>error\<close>; a function that can raise returns
  \<open>error + 'a\<close> with the exception on the left.

  The configuration objects of OmegaConf behave as their Python counterparts: reading
  a key that a mapping does not have raises KeyError (from version 2.1 on, a
  \<^verbatim>\<open>DictConfig\<close> raises \<^verbatim>\<open>ConfigKeyError\<close>, which is one), and a null of the YAML source
  is \<^verbatim>\<open>None\<close>. Assertions are enabled.
\<close>

datatype error =
    AssertionError string
  | ValueError string
  | IndexError string
  | KeyError string

text \<open>\<^verbatim>\<open>s.split(sep)\<close> for a separator of one character: never the empty list.\<close>

fun py_split :: "char \<Rightarrow> string \<Rightarrow> string list" where
  "py_split sep [] = [[]]"
| "py_split sep (c # cs) =
     (if c = sep then [] # py_split sep cs
      else (case py_split sep cs of
              [] \<Rightarrow> [[c]]
            | w # ws \<Rightarrow> (c # w) # ws))"

text \<open>\<^verbatim>\<open>sep.join(xs)\<close>.\<close>

fun py_join :: "string \<Rightarrow> string list \<Rightarrow> string" where
  "py_join sep [] = []"
| "py_join sep [x] = x"
| "py_join sep (x # y # ys) = x @ sep @ py_join sep (y # ys)"

text \<open>\<^verbatim>\<open>s.index(sub)\<close>: the first position where \<open>sub\<close> starts, \<open>None\<close> for the ValueError.\<close>

fun py_index :: "string \<Rightarrow> string \<Rightarrow> nat option" where
  "py_index [] sub = (if sub = [] then Some 0 else None)"
| "py_index (c # cs) sub =
     (if take (length sub) (c # cs) = sub then Some 0
      else map_option Suc (py_index cs sub))"

text \<open>\<^verbatim>\<open>s.endswith(suf)\<close>.\<close>

definition endswith :: "string \<Rightarrow> string \<Rightarrow> bool" where
  "endswith s suf \<longleftrightarrow> length suf \<le> length s \<and> drop (length s - length suf) s = suf"

definition ascii_lowercase :: string where
  "ascii_lowercase = ''abcdefghijklmnopqrstuvwxyz''"

definition ascii_uppercase :: string where
  "ascii_uppercase = ''ABCDEFGHIJKLMNOPQRSTUVWXYZ''"

definition upper_char :: "char \<Rightarrow> char" where
  "upper_char c = (case map_of (zip ascii_lowercase ascii_uppercase) c of Some u \<Rightarrow> u | None \<Rightarrow> c)"

definition lower_char :: "char \<Rightarrow> char" where
  "lower_char c = (case map_of (zip ascii_uppercase ascii_lowercase) c of Some l \<Rightarrow> l | None \<Rightarrow> c)"

definition lower :: "string \<Rightarrow> string" where
  "lower s = map lower_char s"

text \<open>The characters \<^verbatim>\<open>str.isspace\<close> accepts below 0x80, and \<^verbatim>\<open>s.strip()\<close>.\<close>

definition is_space :: "char \<Rightarrow> bool" where
  "is_space c \<longleftrightarrow> c \<in> set [CHR 0x20, CHR 0x09, CHR 0x0A, CHR 0x0B, CHR 0x0C, CHR 0x0D,
                              CHR 0x1C, CHR 0x1D, CHR 0x1E, CHR 0x1F]"

definition strip :: "string \<Rightarrow> string" where
  "strip s = rev (dropWhile is_space (rev (dropWhile is_space s)))"

text \<open>
  A list comprehension whose element expression can raise: the first exception ends it.
\<close>

fun map_err :: "('a \<Rightarrow> error + 'b) \<Rightarrow> 'a list \<Rightarrow> error + 'b list" where
  "map_err f [] = Inr []"
| "map_err f (x # xs) =
     (case f x of
        Inl e \<Rightarrow> Inl e
      | Inr y \<Rightarrow> (case map_err f xs of Inl e \<Rightarrow> Inl e | Inr ys \<Rightarrow> Inr (y # ys)))"


section \<open>Data model\<close>

text \<open>
  \<^verbatim>\<open>CharData\<close>, \<^verbatim>\<open>CharLangData\<close>, \<^verbatim>\<open>GroupData\<close>, \<^verbatim>\<open>GroupLangData\<close> (module
  \<^verbatim>\<open>blue_archive.common\<close>) and \<^verbatim>\<open>Character\<close>, \<^verbatim>\<open>FilterGroup\<close> (module \<^verbatim>\<open>utils.models\<close>)
  are records with the fields the source reads and writes. Each field \<^verbatim>\<open>id\<close> carries
  the record's name, since HOL has one name space for all of them.

  The names and short names of a translation are strings, as \<^verbatim>\<open>get_default_lang_data\<close>
  builds them; the name of a group in a language may also be null, which line 173
  provides for.

  A dictionary keyed by language code is a map; the dictionary of translations and the
  dictionary of avatar files are association lists in insertion order, updated with
  \<^const>\<open>AList.update\<close> (an existing key keeps its place, a new one goes to the end),
  which is the order \<^verbatim>\<open>dict.values()\<close> later reads.
\<close>

record CharData =
  data_id :: string
  family_name :: string
  personal_name :: string
  family_name_ruby :: string
  personal_name_ruby :: string
  family_name_kr :: string
  personal_name_kr :: string
  image_files :: "string list"

record CharLangData =
  trans_id :: string
  name :: "string \<rightharpoonup> string"
  short_name :: "(string \<rightharpoonup> string) option"

record GroupData =
  group_id :: string
  members :: "string list"

record Character =
  char_id :: string
  names :: "string \<rightharpoonup> string"
  short_names :: "string \<rightharpoonup> string"
  images :: "string list"
  groups :: "string list"


section \<open>Default translation\<close>

text \<open>
  \<^verbatim>\<open>s[0].upper() + s[1:]\<close>: indexing the empty string raises IndexError.
\<close>

definition upper_first :: "string \<Rightarrow> error + string" where
  "upper_first s =
     (case s of
        [] \<Rightarrow> Inl (IndexError ''string index out of range'')
      | c # cs \<Rightarrow> Inr (upper_char c # cs))"

text \<open>
  \<^verbatim>\<open>get_default_lang_data\<close>. The romanisation \<^verbatim>\<open>name_to_id\<close> is imported from
  \<^verbatim>\<open>blue_archive.common\<close>; it is a parameter here.
\<close>

definition get_default_lang_data :: "(string \<Rightarrow> string) \<Rightarrow> CharData \<Rightarrow> error + CharLangData" where
  "get_default_lang_data name_to_id data =
     (case
        (if length (family_name data) > 0 then
           Inr (family_name data @ '' '' @ personal_name data,
                (if length (personal_name_ruby data) > 0
                 then name_to_id (family_name_ruby data) @ '' '' @ name_to_id (personal_name_ruby data)
                 else name_to_id (family_name_ruby data) @ '' '' @ data_id data),
                strip (family_name_kr data @ '' '' @ personal_name_kr data))
         else
           (case map_err upper_first (filter (\<lambda>s. s \<noteq> ''npc'') (py_split CHR ''_'' (data_id data))) of
              Inl e \<Rightarrow> Inl e
            | Inr ws \<Rightarrow> Inr (personal_name data, py_join '' '' ws, [])))
      of
        Inl e \<Rightarrow> Inl e
      | Inr (jp_name, en_name, kr_name) \<Rightarrow>
          Inr \<lparr> trans_id = data_id data,
                name = [''ja'' \<mapsto> jp_name, ''en'' \<mapsto> en_name, ''ko'' \<mapsto> kr_name,
                        ''zh-cn'' \<mapsto> [], ''zh-tw'' \<mapsto> []],
                short_name = None \<rparr>)"


text \<open>
  Modelled from the spec: \<^verbatim>\<open>all_langs\<close>, the required language codes, is imported from
  \<^verbatim>\<open>blue_archive.common\<close>. The spec calls it a fixed, closed set of language codes,
  and \<^verbatim>\<open>get_default_lang_data\<close> gives a name in exactly these five. Every function
  below takes the list as a parameter; this constant is the list at which concrete
  runs are evaluated.
\<close>

definition all_langs :: "string list" where
  "all_langs = [''ja'', ''en'', ''ko'', ''zh-cn'', ''zh-tw'']"


section \<open>Merging a character into the translations\<close>

text \<open>
  The protected Japanese name of line 90: the four code points U+521D U+97F3 U+30DF
  U+30AF, in UTF-8.
\<close>

definition protected_ja_name :: string where
  "protected_ja_name =
     [CHR 0xE5, CHR 0x88, CHR 0x9D, CHR 0xE9, CHR 0x9F, CHR 0xB3,
      CHR 0xE3, CHR 0x83, CHR 0x9F, CHR 0xE3, CHR 0x82, CHR 0xAF]"

text \<open>
  Lines 95 to 100: every required language missing from the name mapping is taken from
  the default translation, and the flag is set. Reading a key that a mapping does not
  have raises KeyError.
\<close>

fun backfill :: "string list \<Rightarrow> CharLangData \<Rightarrow> CharLangData \<Rightarrow> bool \<Rightarrow> error + (CharLangData \<times> bool)" where
  "backfill [] default_trans tr updated = Inr (tr, updated)"
| "backfill (lang # langs) default_trans tr updated =
     (if name tr lang = None then
        (case name default_trans lang of
           None \<Rightarrow> Inl (KeyError lang)
         | Some v \<Rightarrow> backfill langs default_trans (tr\<lparr>name := (name tr)(lang \<mapsto> v)\<rparr>) True)
      else backfill langs default_trans tr updated)"

text \<open>
  Lines 81 to 100. The result is the translation the rest of the loop body uses, the
  dictionary of translations and the flag \<^verbatim>\<open>updated_translations\<close>.
\<close>

definition merge_translation ::
  "string list \<Rightarrow> string \<Rightarrow> CharLangData \<Rightarrow> (string \<times> CharLangData) list \<Rightarrow> bool
     \<Rightarrow> error + (CharLangData \<times> (string \<times> CharLangData) list \<times> bool)" where
  "merge_translation langs cid default_trans dict updated =
     (case map_of dict cid of
        None \<Rightarrow> Inr (default_trans, AList.update cid default_trans dict, True)
      | Some tr \<Rightarrow>
          (case name default_trans ''ja'' of
             None \<Rightarrow> Inl (KeyError ''ja'')
           | Some default_ja_name \<Rightarrow>
          (case name tr ''ja'' of
             None \<Rightarrow> Inl (KeyError ''ja'')
           | Some ja \<Rightarrow>
          (case (if ja \<noteq> default_ja_name \<and> ja \<noteq> protected_ja_name then
                   (case name default_trans ''en'' of
                      None \<Rightarrow> Inl (KeyError ''en'')
                    | Some default_en_name \<Rightarrow>
                        Inr (tr\<lparr>name := (name tr)(''ja'' \<mapsto> default_ja_name, ''en'' \<mapsto> default_en_name)\<rparr>,
                             True))
                 else Inr (tr, updated)) of
             Inl e \<Rightarrow> Inl e
           | Inr (tr1, updated1) \<Rightarrow>
          (case backfill langs default_trans tr1 updated1 of
             Inl e \<Rightarrow> Inl e
           | Inr (tr2, updated2) \<Rightarrow>
               Inr (tr2, AList.update cid tr2 dict, updated2))))))"

text \<open>Lines 102 to 105.\<close>

fun fill_short_name :: "string list \<Rightarrow> (string \<rightharpoonup> string) \<Rightarrow> (string \<rightharpoonup> string) \<Rightarrow> error + (string \<rightharpoonup> string)" where
  "fill_short_name [] nm short = Inr short"
| "fill_short_name (lang # langs) nm short =
     (if short lang = None \<or> short lang = Some [] then
        (case nm lang of
           None \<Rightarrow> Inl (KeyError lang)
         | Some n \<Rightarrow> fill_short_name langs nm (short(lang \<mapsto> last (py_split CHR '' '' n))))
      else fill_short_name langs nm short)"

definition resolve_short_name :: "string list \<Rightarrow> CharLangData \<Rightarrow> error + (string \<rightharpoonup> string)" where
  "resolve_short_name langs tr =
     fill_short_name langs (name tr) (case short_name tr of Some short \<Rightarrow> short | None \<Rightarrow> Map.empty)"


section \<open>Avatar files\<close>

text \<open>\<^verbatim>\<open>path.split("/")[-1]\<close>, the last segment of a path.\<close>

definition basename :: "string \<Rightarrow> string" where
  "basename path = last (py_split CHR ''/'' path)"

text \<open>\<^verbatim>\<open>get_legacy_image_mappings\<close>, from the entries of \<^verbatim>\<open>legacy/img_mappings.json\<close>.\<close>

definition get_legacy_image_mappings :: "(string \<times> string) list \<Rightarrow> (string \<rightharpoonup> string)" where
  "get_legacy_image_mappings mappings =
     fold (\<lambda>(k, v) m. if length v > 0 then m(basename v \<mapsto> k) else m) mappings Map.empty"

text \<open>Lines 121 to 124.\<close>

definition canonical_name :: "(string \<rightharpoonup> string) \<Rightarrow> string \<Rightarrow> error + string" where
  "canonical_name image_mappings nm =
     (case image_mappings nm of
        Some mapped \<Rightarrow> Inr mapped
      | None \<Rightarrow>
          (case py_index nm ''Portrait_'' of
             None \<Rightarrow> Inl (ValueError ''substring not found'')
           | Some i \<Rightarrow> Inr (drop (i + length ''Portrait_'') nm)))"

text \<open>
  Lines 116 to 136, the loop over one character's image references. A path under the
  asset root is written relative to it: \<open>img @ ''.png''\<close> stands for
  \<^verbatim>\<open>res_root / f"{img}.png"\<close>, and \<open>file_exists\<close> says which of them are on disk. The stem
  of that path is \<open>basename img\<close>.
\<close>

type_synonym avatar_state =
  "string list \<times> (string \<times> string) list \<times> (string \<times> (string \<times> string) list) list"

fun avatar_loop ::
  "string set \<Rightarrow> (string \<rightharpoonup> string) \<Rightarrow> (string \<Rightarrow> bool) \<Rightarrow> string list \<Rightarrow> avatar_state
     \<Rightarrow> error + avatar_state" where
  "avatar_loop excluded image_mappings file_exists [] acc = Inr acc"
| "avatar_loop excluded image_mappings file_exists (img # imgs) (imgs_of_char, avatar_files, image_config) =
     (if basename img \<in> excluded then
        avatar_loop excluded image_mappings file_exists imgs (imgs_of_char, avatar_files, image_config)
      else
        (case canonical_name image_mappings (basename img) of
           Inl e \<Rightarrow> Inl e
         | Inr nm \<Rightarrow>
             if \<not> length nm > 0 then Inl (AssertionError [])
             else if map_of avatar_files nm \<noteq> None then Inl (AssertionError (''Duplicate: '' @ nm))
             else if \<not> file_exists (img @ ''.png'') then Inl (AssertionError (img @ ''.png''))
             else
               avatar_loop excluded image_mappings file_exists imgs
                 (imgs_of_char @ [nm],
                  AList.update nm (img @ ''.png'') avatar_files,
                  (if endswith (basename img) ''_Collection''
                   then AList.update (img @ ''.png'') [(''h_crop'', ''top'')] image_config
                   else image_config))))"


section \<open>The catalog loop\<close>

record inputs =
  char_data :: "CharData list"
  club_data :: "GroupData list"
  school_data :: "GroupData list"
  char_yaml :: "CharLangData list"
  excluded_lines :: "string list"
  img_mappings :: "(string \<times> string) list"
  asset_exists :: "string \<Rightarrow> bool"

text \<open>
  The fields are the files the run reads: \<^verbatim>\<open>data/char_data.json\<close>,
  \<^verbatim>\<open>manual/clubs.yaml\<close>, \<^verbatim>\<open>manual/schools.yaml\<close>, \<^verbatim>\<open>lang/char.yaml\<close>, the lines of
  \<^verbatim>\<open>manual/excluded_portraits.txt\<close>, \<^verbatim>\<open>legacy/img_mappings.json\<close>, and the files
  under the asset root. The local variables of \<^verbatim>\<open>get_chars\<close> that the loop changes are
  the state; the field \<open>translation_dict\<close> is the variable \<^verbatim>\<open>translations\<close>.
\<close>

record state =
  result :: "Character list"
  avatar_files :: "(string \<times> string) list"
  image_config :: "(string \<times> (string \<times> string) list) list"
  translation_dict :: "(string \<times> CharLangData) list"
  updated_translations :: bool
  chars_without_school :: "Character list"
  chars_without_club :: "Character list"

text \<open>Line 64: a later record with the same id replaces an earlier one.\<close>

definition load_translations :: "CharLangData list \<Rightarrow> (string \<times> CharLangData) list" where
  "load_translations ts = fold (\<lambda>t d. AList.update (trans_id t) t d) ts []"

definition excluded_portraits :: "inputs \<Rightarrow> string set" where
  "excluded_portraits inp = set (map strip (excluded_lines inp))"

definition init_state :: "inputs \<Rightarrow> state" where
  "init_state inp =
     \<lparr> result = [], avatar_files = [], image_config = [],
       translation_dict = load_translations (char_yaml inp),
       updated_translations = False,
       chars_without_school = [], chars_without_club = [] \<rparr>"

text \<open>Lines 78 to 143, the body of the loop for one record.\<close>

definition process_char :: "string list \<Rightarrow> (string \<Rightarrow> string) \<Rightarrow> inputs \<Rightarrow> CharData \<Rightarrow> state \<Rightarrow> error + state" where
  "process_char langs name_to_id inp data st =
     (case get_default_lang_data name_to_id data of
        Inl e \<Rightarrow> Inl e
      | Inr default_trans \<Rightarrow>
     (case merge_translation langs (data_id data) default_trans (translation_dict st) (updated_translations st) of
        Inl e \<Rightarrow> Inl e
      | Inr (tr, dict', updated') \<Rightarrow>
     (case resolve_short_name langs tr of
        Inl e \<Rightarrow> Inl e
      | Inr short \<Rightarrow>
     (case avatar_loop (excluded_portraits inp) (get_legacy_image_mappings (img_mappings inp))
             (asset_exists inp) (image_files data) ([], avatar_files st, image_config st) of
        Inl e \<Rightarrow> Inl e
      | Inr (imgs_of_char, avatar_files', image_config') \<Rightarrow>
          (let ch = \<lparr> char_id = data_id data,
                        names = name tr,
                        short_names = short,
                        images = sort imgs_of_char,
                        groups = sort (map group_id
                                   (filter (\<lambda>gp. data_id data \<in> set (members gp))
                                      (club_data inp @ school_data inp))) \<rparr>
           in Inr \<lparr> result = result st @ [ch],
                    avatar_files = avatar_files',
                    image_config = image_config',
                    translation_dict = dict',
                    updated_translations = updated',
                    chars_without_school =
                      (if length (filter (\<lambda>gp. data_id data \<in> set (members gp)) (school_data inp)) = 0
                       then chars_without_school st @ [ch] else chars_without_school st),
                    chars_without_club =
                      (if length (filter (\<lambda>gp. data_id data \<in> set (members gp)) (club_data inp)) = 0
                       then chars_without_club st @ [ch] else chars_without_club st) \<rparr>)))))"

fun catalog_loop :: "string list \<Rightarrow> (string \<Rightarrow> string) \<Rightarrow> inputs \<Rightarrow> CharData list \<Rightarrow> state \<Rightarrow> error + state" where
  "catalog_loop langs name_to_id inp [] st = Inr st"
| "catalog_loop langs name_to_id inp (data # rest) st =
     (case process_char langs name_to_id inp data st of
        Inl e \<Rightarrow> Inl e
      | Inr st' \<Rightarrow> catalog_loop langs name_to_id inp rest st')"


section \<open>Writing the files\<close>

text \<open>
  A \<^verbatim>\<open>Character\<close> holds the name mapping of its translation, the object itself: lines
  92 and 93 change that object in place when a later record has the same id. Once a
  record has been merged, every required language is in the mapping, so line 99
  replaces the object only before the first \<^verbatim>\<open>Character\<close> of an id exists. After
  the loop, each character's names are therefore those of the translation under its id.
\<close>

definition shared_names :: "(string \<times> CharLangData) list \<Rightarrow> Character \<Rightarrow> Character" where
  "shared_names dict ch =
     (case map_of dict (char_id ch) of
        Some tr \<Rightarrow> ch\<lparr>names := name tr\<rparr>
      | None \<Rightarrow> ch)"

text \<open>Lines 152 and 155: one entry of a report.\<close>

definition report_entry :: "Character \<Rightarrow> error + string" where
  "report_entry ch =
     (case names ch ''ja'' of
        None \<Rightarrow> Inl (KeyError ''ja'')
      | Some ja \<Rightarrow>
          (case images ch of
             [] \<Rightarrow> Inl (IndexError ''list index out of range'')
           | first_image # _ \<Rightarrow>
               Inr (char_id ch @ [CHR 0x0A] @ ''  '' @ ja @ [CHR 0x0A] @ ''  '' @ first_image
                      @ [CHR 0x0A, CHR 0x0A])))"

text \<open>
  The text written to a report file until the loop ends or an entry raises.
\<close>

fun write_report :: "Character list \<Rightarrow> string \<Rightarrow> string \<times> error option" where
  "write_report [] out = (out, None)"
| "write_report (ch # chs) out =
     (case report_entry ch of
        Inl e \<Rightarrow> (out, Some e)
      | Inr entry \<Rightarrow> write_report chs (out @ entry))"

text \<open>
  What a run leaves on disk: the translation store \<^verbatim>\<open>lang/char.yaml\<close> with the records
  written to it, and the two report files with their text.
\<close>

datatype written =
    TranslationStore "CharLangData list"
  | Report string string

definition store_content :: "(string \<times> CharLangData) list \<Rightarrow> CharLangData list" where
  "store_content dict = sort_key (\<lambda>x. lower (trans_id x)) (map snd dict)"

text \<open>
  \<^verbatim>\<open>get_chars\<close>: the files written, in order, and the exception or the returned tuple.
\<close>

definition get_chars ::
  "string list \<Rightarrow> (string \<Rightarrow> string) \<Rightarrow> inputs
     \<Rightarrow> written list \<times>
        (error + Character list \<times> (string \<times> string) list \<times> (string \<times> (string \<times> string) list) list)" where
  "get_chars langs name_to_id inp =
     (case catalog_loop langs name_to_id inp (char_data inp) (init_state inp) of
        Inl e \<Rightarrow> ([], Inl e)
      | Inr st \<Rightarrow>
          (let store = (if updated_translations st
                        then [TranslationStore (store_content (translation_dict st))] else []);
               noschool = write_report (map (shared_names (translation_dict st)) (chars_without_school st)) []
           in case snd noschool of
                Some e \<Rightarrow> (store @ [Report ''manual/noschool.generated.txt'' (fst noschool)], Inl e)
              | None \<Rightarrow>
                  (let noclub = write_report (map (shared_names (translation_dict st)) (chars_without_club st)) []
                   in case snd noclub of
                        Some e \<Rightarrow>
                          (store @ [Report ''manual/noschool.generated.txt'' (fst noschool),
                                    Report ''manual/noclub.generated.txt'' (fst noclub)], Inl e)
                      | None \<Rightarrow>
                          (store @ [Report ''manual/noschool.generated.txt'' (fst noschool),
                                    Report ''manual/noclub.generated.txt'' (fst noclub)],
                           Inr (map (shared_names (translation_dict st)) (result st),
                                avatar_files st, image_config st)))))"


section \<open>Filter groups\<close>

record GroupLangData =
  glang_id :: string
  glang_name :: "string \<rightharpoonup> string option"

text \<open>
  The name of a group in a language is a string or null (\<open>None\<close>). The label of a
  category comes from \<^verbatim>\<open>lang/group_types.yaml\<close>, whose values the source only passes on.
\<close>

record 'l FilterGroup =
  fg_key :: string
  fg_label :: 'l
  fg_ids :: "string list"
  fg_names :: "(string \<rightharpoonup> string) list"
  fg_flags :: "bool list"

text \<open>Line 173: \<^verbatim>\<open>{k: gp.name[k] or "" for k in all_langs}\<close>.\<close>

fun fill_langs :: "string list \<Rightarrow> (string \<rightharpoonup> string option) \<Rightarrow> (string \<rightharpoonup> string) \<Rightarrow> error + (string \<rightharpoonup> string)" where
  "fill_langs [] nm acc = Inr acc"
| "fill_langs (k # ks) nm acc =
     (case nm k of
        None \<Rightarrow> Inl (KeyError k)
      | Some v \<Rightarrow> fill_langs ks nm (acc(k \<mapsto> (case v of None \<Rightarrow> [] | Some s \<Rightarrow> s))))"

text \<open>Lines 169 to 180, for one category.\<close>

definition filter_group ::
  "string list \<Rightarrow> (string \<rightharpoonup> 'l) \<Rightarrow> (string \<Rightarrow> GroupLangData list) \<Rightarrow> string \<Rightarrow> error + 'l FilterGroup" where
  "filter_group langs type_names lang_file key =
     (let groups = sort_key glang_id (lang_file key) in
      case map_err (\<lambda>gp. fill_langs langs (glang_name gp) Map.empty) groups of
        Inl e \<Rightarrow> Inl e
      | Inr group_names \<Rightarrow>
          (case type_names key of
             None \<Rightarrow> Inl (KeyError key)
           | Some label \<Rightarrow>
               Inr \<lparr> fg_key = key, fg_label = label,
                     fg_ids = map glang_id groups,
                     fg_names = group_names,
                     fg_flags = replicate (length groups) False \<rparr>))"

definition get_filters ::
  "string list \<Rightarrow> (string \<rightharpoonup> 'l) \<Rightarrow> (string \<Rightarrow> GroupLangData list) \<Rightarrow> error + 'l FilterGroup list" where
  "get_filters langs type_names lang_file =
     map_err (filter_group langs type_names lang_file) [''schools'', ''clubs'']"


section \<open>Words of the spec and concrete inputs\<close>


text \<open>
  \<open>spec_capitalized\<close> is the capitalized word of the spec: the first character in upper
  case, the rest as it is.
\<close>

definition plain_char :: "string \<Rightarrow> string \<Rightarrow> string list \<Rightarrow> CharData" where
  "plain_char cid personal imgs =
     \<lparr> data_id = cid, family_name = [], personal_name = personal,
       family_name_ruby = [], personal_name_ruby = [],
       family_name_kr = [], personal_name_kr = [], image_files = imgs \<rparr>"

definition family_char :: "string \<Rightarrow> string \<Rightarrow> string \<Rightarrow> string \<Rightarrow> string \<Rightarrow> CharData" where
  "family_char cid family personal family_ruby personal_ruby =
     \<lparr> data_id = cid, family_name = family, personal_name = personal,
       family_name_ruby = family_ruby, personal_name_ruby = personal_ruby,
       family_name_kr = [], personal_name_kr = [], image_files = [] \<rparr>"












text \<open>
  The words of the spec for \<^verbatim>\<open>get_filters\<close>: a null name becomes the empty string,
  and the filter group of a category has the category's key and label, the group ids in
  ascending order, one name mapping per group with exactly the required languages, and
  as many flags, all false.
\<close>

definition spec_or_empty :: "string option option \<Rightarrow> string" where
  "spec_or_empty v = (case v of Some (Some s) \<Rightarrow> s | _ \<Rightarrow> [])"

definition group_langs_present :: "string list \<Rightarrow> (string \<Rightarrow> GroupLangData list) \<Rightarrow> string \<Rightarrow> bool" where
  "group_langs_present langs lang_file key \<longleftrightarrow>
     list_all (\<lambda>gp. list_all (\<lambda>k. glang_name gp k \<noteq> None) langs) (lang_file key)"

definition filter_group_spec ::
  "string list \<Rightarrow> (string \<rightharpoonup> 'l) \<Rightarrow> (string \<Rightarrow> GroupLangData list) \<Rightarrow> string \<Rightarrow> 'l FilterGroup \<Rightarrow> bool" where
  "filter_group_spec langs type_names lang_file key fg \<longleftrightarrow>
     fg_key fg = key
     \<and> type_names key = Some (fg_label fg)
     \<and> fg_ids fg = sort (map glang_id (lang_file key))
     \<and> sorted (fg_ids fg)
     \<and> list_all2 (\<lambda>gp nm. dom nm = set langs \<and> (\<forall>k \<in> set langs. nm k = Some (spec_or_empty (glang_name gp k))))
          (sort_key glang_id (lang_file key)) (fg_names fg)
     \<and> length (fg_names fg) = length (fg_ids fg)
     \<and> fg_flags fg = replicate (length (fg_ids fg)) False"

definition example_type_names :: "string \<rightharpoonup> string" where
  "example_type_names = [''schools'' \<mapsto> ''School'', ''clubs'' \<mapsto> ''Club'']"

definition example_groups :: "string \<Rightarrow> GroupLangData list" where
  "example_groups key =
     (if key = ''schools'' then
        [\<lparr> glang_id = ''trinity'',
            glang_name = [''ja'' \<mapsto> Some ''Toriniti'', ''en'' \<mapsto> Some ''Trinity'', ''ko'' \<mapsto> None,
                          ''zh-cn'' \<mapsto> Some [], ''zh-tw'' \<mapsto> None] \<rparr>,
         \<lparr> glang_id = ''abydos'',
            glang_name = [''ja'' \<mapsto> Some ''Abidosu'', ''en'' \<mapsto> Some ''Abydos'', ''ko'' \<mapsto> None,
                          ''zh-cn'' \<mapsto> None, ''zh-tw'' \<mapsto> None] \<rparr>]
      else [])"

definition groups_without_ko :: "string \<Rightarrow> GroupLangData list" where
  "groups_without_ko key =
     (if key = ''schools'' then
        [\<lparr> glang_id = ''trinity'',
            glang_name = [''ja'' \<mapsto> Some ''Toriniti'', ''en'' \<mapsto> Some ''Trinity'',
                          ''zh-cn'' \<mapsto> Some [], ''zh-tw'' \<mapsto> None] \<rparr>]
      else [])"


text \<open>
  Words for the claims about the loop. A live reference is an image reference of the
  record at position \<open>i\<close> whose last segment is not excluded; \<open>canonical_of\<close> is the
  canonical name lines 121 to 124 give it. A run aborts without output when it raises
  and has written no file.
\<close>

definition live_reference :: "inputs \<Rightarrow> nat \<Rightarrow> string \<Rightarrow> bool" where
  "live_reference inp i img \<longleftrightarrow>
     i < length (char_data inp) \<and> img \<in> set (image_files (char_data inp ! i))
     \<and> basename img \<notin> excluded_portraits inp"

definition canonical_of :: "inputs \<Rightarrow> string \<Rightarrow> error + string" where
  "canonical_of inp img = canonical_name (get_legacy_image_mappings (img_mappings inp)) (basename img)"

definition aborts_without_output :: "written list \<times> (error + 'a) \<Rightarrow> bool" where
  "aborts_without_output r \<longleftrightarrow> fst r = [] \<and> isl (snd r)"

definition example_inputs :: "CharData list \<Rightarrow> inputs" where
  "example_inputs chars =
     \<lparr> char_data = chars,
       club_data = [\<lparr> group_id = ''club68'', members = [''aru'', ''mutsuki''] \<rparr>],
       school_data = [\<lparr> group_id = ''gehenna'', members = [''aru'', ''mutsuki''] \<rparr>],
       char_yaml = [],
       excluded_lines = [''Portrait_Bad'' @ [CHR 0x0A]],
       img_mappings = [(''Legacy'', ''old/Portrait_Old''), (''Unused'', [])],
       asset_exists = (\<lambda>path. path \<noteq> ''img/Portrait_Missing.png'') \<rparr>"

definition duplicate_inputs :: inputs where
  "duplicate_inputs =
     example_inputs [plain_char ''aru'' ''Aru'' [''img/Portrait_Default''],
        plain_char ''mutsuki'' ''Mutsuki'' [''img/Portrait_Bad'', ''alt/Portrait_Default'']]"

definition empty_name_inputs :: inputs where
  "empty_name_inputs = example_inputs [plain_char ''aru'' ''Aru'' [''img/Portrait_'']]"

definition missing_file_inputs :: inputs where
  "missing_file_inputs = example_inputs [plain_char ''aru'' ''Aru'' [''img/Portrait_Missing'']]"

definition no_marker_inputs :: inputs where
  "no_marker_inputs =
     example_inputs [plain_char ''aru'' ''Aru'' [''img/Portrait_Aru''],
        plain_char ''mutsuki'' ''Mutsuki'' [''img/Portrait_Bad'', ''img/Mutsuki_Default'']]"


text \<open>
  Every listed character has a translation under its id, with a Japanese name: what
  holds of the two report lists at the end of the loop.
\<close>

definition listed_with_ja :: "(string \<times> CharLangData) list \<Rightarrow> Character list \<Rightarrow> bool" where
  "listed_with_ja dict chs \<longleftrightarrow>
     (\<forall>ch \<in> set chs. \<exists>t. map_of dict (char_id ch) = Some t \<and> name t ''ja'' \<noteq> None)"

definition written_files :: "written list \<Rightarrow> string list" where
  "written_files ws = map (\<lambda>w. case w of TranslationStore ts \<Rightarrow> ''lang/char.yaml'' | Report file text \<Rightarrow> file) ws"

definition unlisted_inputs :: inputs where
  "unlisted_inputs =
     example_inputs [plain_char ''aru'' ''Aru'' [''img/Portrait_Aru''],
        plain_char ''npc_guide'' ''Guide'' [''img/Portrait_Bad'']]"


text \<open>
  Words for the claims about the translation store. A record needs an update of the
  translations when it has no translation yet (line 81), when the Japanese name of its
  translation differs from the default and is not the protected one (line 90), or
  when a required language is missing from the names of its translation (line 97).
\<close>

definition needs_update :: "string list \<Rightarrow> CharLangData \<Rightarrow> (string \<times> CharLangData) list \<Rightarrow> string \<Rightarrow> bool" where
  "needs_update langs default_trans dict cid \<longleftrightarrow>
     (case map_of dict cid of
        None \<Rightarrow> True
      | Some tr \<Rightarrow>
          (name tr ''ja'' \<noteq> name default_trans ''ja'' \<and> name tr ''ja'' \<noteq> Some protected_ja_name)
          \<or> (\<exists>lang \<in> set langs. name tr lang = None))"

text \<open>
  The dictionary of translations holds one record per id, under that id.
\<close>

definition dict_ok :: "(string \<times> CharLangData) list \<Rightarrow> bool" where
  "dict_ok dict \<longleftrightarrow> distinct (map fst dict) \<and> (\<forall>(k, t) \<in> set dict. trans_id t = k)"



text \<open>
  The content of \<^verbatim>\<open>lang/char.yaml\<close> after a run, and the inputs of a second run: only
  the translation store may differ, and it holds what the first run left.
\<close>

definition store_after :: "CharLangData list \<Rightarrow> written list \<Rightarrow> CharLangData list" where
  "store_after store ws = fold (\<lambda>w s. case w of TranslationStore ts \<Rightarrow> ts | Report file text \<Rightarrow> s) ws store"

definition second_run_inputs :: "string list \<Rightarrow> (string \<Rightarrow> string) \<Rightarrow> inputs \<Rightarrow> inputs" where
  "second_run_inputs langs name_to_id inp =
     inp\<lparr>char_yaml := store_after (char_yaml inp) (fst (get_chars langs name_to_id inp))\<rparr>"

text \<open>Stored translations and inputs for concrete runs.\<close>

definition plain_entry :: "string \<Rightarrow> CharLangData" where
  "plain_entry cid =
     \<lparr> trans_id = cid,
       name = [''ja'' \<mapsto> cid, ''en'' \<mapsto> cid, ''ko'' \<mapsto> [], ''zh-cn'' \<mapsto> [], ''zh-tw'' \<mapsto> []],
       short_name = None \<rparr>"

definition fresh_inputs :: inputs where
  "fresh_inputs =
     (example_inputs [plain_char ''Beta'' ''Beta'' [''img/Portrait_Beta'']])
       \<lparr>char_yaml := [plain_entry ''Zeta'', plain_entry ''alpha'']\<rparr>"

definition settled_inputs :: inputs where
  "settled_inputs =
     (example_inputs [plain_char ''Beta'' ''Beta'' [''img/Portrait_Beta'']])
       \<lparr>char_yaml := [plain_entry ''alpha'', plain_entry ''Beta'', plain_entry ''Zeta'']\<rparr>"

definition repeated_id_inputs :: inputs where
  "repeated_id_inputs =
     example_inputs [plain_char ''aru'' ''Aru'' [], plain_char ''aru'' ''Haruka'' []]"

text \<open>The ids of the records of each write to the translation store, in order.\<close>

definition store_writes :: "written list \<Rightarrow> string list list" where
  "store_writes ws =
     concat (map (\<lambda>w. case w of TranslationStore ts \<Rightarrow> [map trans_id ts] | Report file text \<Rightarrow> []) ws)"


section \<open>Properties of the default translation\<close>

lemma py_split_nonempty: "py_split sep s \<noteq> []"
  by (induction s) (auto split: list.splits)








text \<open>
  C5. Let a record have a family name. If both ruby fields are present, the default
  English name is the romanised family ruby, a space and the romanised personal ruby.
  If the personal ruby is absent, it is the romanised family ruby, a space and the id.
\<close>

theorem default_en_name_with_family_name:
  assumes "family_name data \<noteq> []"
  shows "\<exists>t. get_default_lang_data name_to_id data = Inr t \<and>
           (family_name_ruby data \<noteq> [] \<and> personal_name_ruby data \<noteq> [] \<longrightarrow>
              name t ''en'' = Some (name_to_id (family_name_ruby data) @ '' '' @ name_to_id (personal_name_ruby data))) \<and>
           (personal_name_ruby data = [] \<longrightarrow>
              name t ''en'' = Some (name_to_id (family_name_ruby data) @ '' '' @ data_id data))"
  using assms by (simp add: get_default_lang_data_def)

theorem default_en_name_with_family_name_witness:
  "family_name (family_char ''aru_newyear'' ''Rikuhachima'' ''Aru'' ''rikuhachima'' ''aru'') \<noteq> []
   \<and> (\<exists>t. get_default_lang_data lower (family_char ''aru_newyear'' ''Rikuhachima'' ''Aru'' ''rikuhachima'' ''aru'') = Inr t
          \<and> name t ''en'' = Some ''rikuhachima aru'')
   \<and> family_name (family_char ''aru_newyear'' ''Rikuhachima'' ''Aru'' ''rikuhachima'' []) \<noteq> []
   \<and> (\<exists>t. get_default_lang_data lower (family_char ''aru_newyear'' ''Rikuhachima'' ''Aru'' ''rikuhachima'' []) = Inr t
          \<and> name t ''en'' = Some ''rikuhachima aru_newyear'')"
  using default_en_name_with_family_name [of "family_char ''aru_newyear'' ''Rikuhachima'' ''Aru'' ''rikuhachima'' ''aru''" lower]
        default_en_name_with_family_name [of "family_char ''aru_newyear'' ''Rikuhachima'' ''Aru'' ''rikuhachima'' []" lower]
  by (simp add: family_char_def lower_def lower_char_def ascii_lowercase_def ascii_uppercase_def)

section \<open>Properties of the short names\<close>







section \<open>Properties of the merge\<close>

lemma backfill_fields:
  "backfill langs d tr u = Inr (tr', u') \<Longrightarrow> trans_id tr' = trans_id tr \<and> short_name tr' = short_name tr"
  by (induction langs arbitrary: tr u) (auto split: option.splits if_splits)

lemma backfill_name:
  "backfill langs d tr u = Inr (tr', u') \<Longrightarrow>
     name tr' l = (if name tr l = None \<and> l \<in> set langs then name d l else name tr l)"
  by (induction langs arbitrary: tr u) (auto split: option.splits if_splits)

lemma backfill_complete:
  "backfill langs d tr u = Inr (tr', u') \<Longrightarrow> l \<in> set langs \<Longrightarrow> name tr' l \<noteq> None"
proof (induction langs arbitrary: tr u)
  case Nil
  then show ?case by simp
next
  case (Cons lang langs)
  show ?case
  proof (cases "name tr lang")
    case None
    with Cons.prems(1) obtain v where v: "name d lang = Some v"
      and rest: "backfill langs d (tr\<lparr>name := (name tr)(lang \<mapsto> v)\<rparr>) True = Inr (tr', u')"
      by (auto split: option.splits)
    show ?thesis
    proof (cases "l \<in> set langs")
      case True
      with Cons.IH[OF rest] show ?thesis by simp
    next
      case False
      with Cons.prems(2) have "l = lang" by simp
      with backfill_name[OF rest, of lang] False show ?thesis by simp
    qed
  next
    case (Some a)
    with Cons.prems(1) have rest: "backfill langs d tr u = Inr (tr', u')"
      by auto
    show ?thesis
    proof (cases "l \<in> set langs")
      case True
      with Cons.IH[OF rest] show ?thesis by simp
    next
      case False
      with Cons.prems(2) have "l = lang" by simp
      with backfill_name[OF rest, of lang] False Some show ?thesis by simp
    qed
  qed
qed


lemma backfill_unchanged:
  "\<forall>l \<in> set langs. name tr l \<noteq> None \<Longrightarrow> backfill langs d tr u = Inr (tr, u)"
  by (induction langs) auto

lemma default_has_ja_en:
  assumes "get_default_lang_data name_to_id data = Inr d"
  shows "\<exists>dja den. name d ''ja'' = Some dja \<and> name d ''en'' = Some den"
  using assms by (auto simp: get_default_lang_data_def split: if_splits sum.splits)


lemma default_has_all_langs:
  assumes "get_default_lang_data name_to_id data = Inr d"
  shows "\<forall>l \<in> set all_langs. name d l \<noteq> None"
  using assms by (auto simp: get_default_lang_data_def all_langs_def split: if_splits sum.splits)




section \<open>Properties of the filter groups\<close>

lemma fill_langs_result:
  "fill_langs ks nm acc = Inr m \<Longrightarrow>
     m k = (if k \<in> set ks then Some (spec_or_empty (nm k)) else acc k)"
proof (induction ks arbitrary: acc)
  case Nil
  then show ?case by simp
next
  case (Cons a ks)
  from Cons.prems obtain v where v: "nm a = Some v"
    and rest: "fill_langs ks nm (acc(a \<mapsto> (case v of None \<Rightarrow> [] | Some s \<Rightarrow> s))) = Inr m"
    by (auto split: option.splits)
  from Cons.IH[OF rest] v show ?case
    by (auto simp: spec_or_empty_def split: option.splits)
qed

lemma fill_langs_total:
  "list_all (\<lambda>k. nm k \<noteq> None) ks \<Longrightarrow> \<exists>m. fill_langs ks nm acc = Inr m"
  by (induction ks arbitrary: acc) (auto split: option.splits)

lemma fill_langs_fail:
  "\<not> list_all (\<lambda>k. nm k \<noteq> None) ks \<Longrightarrow> \<exists>k \<in> set ks. fill_langs ks nm acc = Inl (KeyError k)"
  by (induction ks arbitrary: acc) (auto split: option.splits)

lemma map_err_Inr_D:
  "map_err f xs = Inr ys \<Longrightarrow> list_all2 (\<lambda>x y. f x = Inr y) xs ys"
  by (induction xs arbitrary: ys) (auto split: sum.splits)

lemma map_err_total:
  "list_all (\<lambda>x. \<exists>y. f x = Inr y) xs \<Longrightarrow> \<exists>ys. map_err f xs = Inr ys"
  by (induction xs) auto

lemma map_err_fail:
  "\<not> list_all (\<lambda>x. \<exists>y. f x = Inr y) xs \<Longrightarrow> \<exists>x \<in> set xs. \<exists>e. f x = Inl e \<and> map_err f xs = Inl e"
proof (induction xs)
  case Nil
  then show ?case by simp
next
  case (Cons x xs)
  show ?case
  proof (cases "f x")
    case (Inl e)
    then show ?thesis by auto
  next
    case (Inr y)
    with Cons.prems have "\<not> list_all (\<lambda>x. \<exists>y. f x = Inr y) xs" by simp
    from Cons.IH[OF this] Inr show ?thesis by auto
  qed
qed

lemma map_insort_key: "map f (insort_key f a xs) = insort (f a) (map f xs)"
  by (induction xs) auto

lemma sort_key_map: "map f (sort_key f xs) = sort (map f xs)"
  by (induction xs) (auto simp: map_insort_key)

lemma filter_group_ok:
  assumes "filter_group langs type_names lang_file key = Inr fg"
  shows "filter_group_spec langs type_names lang_file key fg"
proof -
  let ?groups = "sort_key glang_id (lang_file key)"
  from assms obtain nms label where
    nms: "map_err (\<lambda>gp. fill_langs langs (glang_name gp) Map.empty) ?groups = Inr nms"
    and label: "type_names key = Some label"
    and fg: "fg = \<lparr> fg_key = key, fg_label = label, fg_ids = map glang_id ?groups,
                    fg_names = nms, fg_flags = replicate (length ?groups) False \<rparr>"
    by (auto simp: filter_group_def Let_def split: sum.splits option.splits)
  from map_err_Inr_D[OF nms]
  have l2: "list_all2 (\<lambda>gp nm. fill_langs langs (glang_name gp) Map.empty = Inr nm) ?groups nms" .
  have "list_all2 (\<lambda>gp nm. dom nm = set langs \<and> (\<forall>k \<in> set langs. nm k = Some (spec_or_empty (glang_name gp k))))
          ?groups nms"
  proof (rule list_all2_mono[OF l2])
    fix gp nm
    assume "fill_langs langs (glang_name gp) Map.empty = Inr nm"
    from fill_langs_result[OF this]
    have "\<And>k. nm k = (if k \<in> set langs then Some (spec_or_empty (glang_name gp k)) else None)"
      by simp
    then show "dom nm = set langs \<and> (\<forall>k \<in> set langs. nm k = Some (spec_or_empty (glang_name gp k)))"
      by (auto simp: dom_def)
  qed
  moreover from list_all2_lengthD[OF l2] have "length nms = length (lang_file key)"
    by simp
  ultimately show ?thesis
    using label fg by (simp add: filter_group_spec_def sort_key_map)
qed

lemma filter_group_total:
  assumes "group_langs_present langs lang_file key" and "type_names key \<noteq> None"
  shows "\<exists>fg. filter_group langs type_names lang_file key = Inr fg"
proof -
  from assms(1) have "list_all (\<lambda>gp. \<exists>m. fill_langs langs (glang_name gp) Map.empty = Inr m)
                        (sort_key glang_id (lang_file key))"
    by (auto simp: group_langs_present_def list_all_iff intro: fill_langs_total)
  from map_err_total[OF this] assms(2) show ?thesis
    by (auto simp: filter_group_def Let_def)
qed

lemma filter_group_fail:
  assumes "\<not> (group_langs_present langs lang_file key \<and> type_names key \<noteq> None)"
  shows "\<exists>k. filter_group langs type_names lang_file key = Inl (KeyError k)"
proof (cases "group_langs_present langs lang_file key")
  case True
  from True have "list_all (\<lambda>gp. \<exists>m. fill_langs langs (glang_name gp) Map.empty = Inr m)
                        (sort_key glang_id (lang_file key))"
    by (auto simp: group_langs_present_def list_all_iff intro: fill_langs_total)
  from map_err_total[OF this] assms True show ?thesis
    by (auto simp: filter_group_def Let_def)
next
  case False
  then obtain gp0 where gp0: "gp0 \<in> set (lang_file key)"
    and missing: "\<not> list_all (\<lambda>k. glang_name gp0 k \<noteq> None) langs"
    unfolding group_langs_present_def list_all_iff by blast
  from fill_langs_fail[OF missing, of Map.empty]
  have "\<not> (\<exists>m. fill_langs langs (glang_name gp0) Map.empty = Inr m)"
    by auto
  with gp0 have "\<not> list_all (\<lambda>gp. \<exists>m. fill_langs langs (glang_name gp) Map.empty = Inr m)
                        (sort_key glang_id (lang_file key))"
    unfolding list_all_iff set_sort by blast
  from map_err_fail[OF this] obtain gp e where
    gp: "gp \<in> set (lang_file key)" and e: "fill_langs langs (glang_name gp) Map.empty = Inl e"
    and m: "map_err (\<lambda>gp. fill_langs langs (glang_name gp) Map.empty) (sort_key glang_id (lang_file key)) = Inl e"
    by auto
  have "\<exists>k. e = KeyError k"
  proof (cases "list_all (\<lambda>k. glang_name gp k \<noteq> None) langs")
    case True
    from fill_langs_total[OF this, of Map.empty] e show ?thesis by auto
  next
    case False
    from fill_langs_fail[OF this, of Map.empty] e show ?thesis by auto
  qed
  with m show ?thesis
    by (auto simp: filter_group_def Let_def)
qed

text \<open>
  C3, as amended. If the label table has both categories and every group's name
  mapping has an entry (a string or null) for every required language, \<^verbatim>\<open>get_filters\<close>
  returns two filter groups, schools then clubs; in each, the ids are those of the
  category in ascending order, every name mapping has exactly the required languages
  with the empty string where the record had null, and the flags are all false and as
  many as the ids. Otherwise, so also when a group's mapping lacks a required language,
  it raises KeyError.
\<close>

theorem get_filters_result:
  "if (\<forall>key \<in> {''schools'', ''clubs''}. group_langs_present langs lang_file key \<and> type_names key \<noteq> None)
   then \<exists>schools clubs. get_filters langs type_names lang_file = Inr [schools, clubs]
          \<and> filter_group_spec langs type_names lang_file ''schools'' schools
          \<and> filter_group_spec langs type_names lang_file ''clubs'' clubs
   else \<exists>k. get_filters langs type_names lang_file = Inl (KeyError k)"
proof -
  have cond: "(\<forall>key \<in> {''schools'', ''clubs''}. group_langs_present langs lang_file key \<and> type_names key \<noteq> None)
       \<longleftrightarrow> (group_langs_present langs lang_file ''schools'' \<and> type_names ''schools'' \<noteq> None)
          \<and> (group_langs_present langs lang_file ''clubs'' \<and> type_names ''clubs'' \<noteq> None)"
    by simp
  have run: "get_filters langs type_names lang_file =
     (case filter_group langs type_names lang_file ''schools'' of
        Inl e \<Rightarrow> Inl e
      | Inr s \<Rightarrow> (case filter_group langs type_names lang_file ''clubs'' of
                     Inl e \<Rightarrow> Inl e
                   | Inr c \<Rightarrow> Inr [s, c]))"
    by (simp add: get_filters_def split: sum.splits)
  show ?thesis
  proof (cases "group_langs_present langs lang_file ''schools'' \<and> type_names ''schools'' \<noteq> None")
    case s: True
    then obtain fs where fs: "filter_group langs type_names lang_file ''schools'' = Inr fs"
      using filter_group_total[of langs lang_file "''schools''" type_names] by auto
    show ?thesis
    proof (cases "group_langs_present langs lang_file ''clubs'' \<and> type_names ''clubs'' \<noteq> None")
      case c: True
      then obtain fc where fc: "filter_group langs type_names lang_file ''clubs'' = Inr fc"
        using filter_group_total[of langs lang_file "''clubs''" type_names] by auto
      from s c have "\<forall>key \<in> {''schools'', ''clubs''}. group_langs_present langs lang_file key \<and> type_names key \<noteq> None"
        unfolding cond by simp
      moreover have "get_filters langs type_names lang_file = Inr [fs, fc]"
        unfolding run by (simp add: fs fc)
      ultimately show ?thesis
        using filter_group_ok[OF fs] filter_group_ok[OF fc] by auto
    next
      case c: False
      from filter_group_fail[where type_names = type_names and key = "''clubs''", OF c] obtain k where "filter_group langs type_names lang_file ''clubs'' = Inl (KeyError k)"
        by auto
      then have "get_filters langs type_names lang_file = Inl (KeyError k)"
        unfolding run by (simp add: fs)
      moreover from c have "\<not> (\<forall>key \<in> {''schools'', ''clubs''}. group_langs_present langs lang_file key \<and> type_names key \<noteq> None)"
        unfolding cond by simp
      ultimately show ?thesis by auto
    qed
  next
    case s: False
    from filter_group_fail[where type_names = type_names and key = "''schools''", OF s] obtain k where "filter_group langs type_names lang_file ''schools'' = Inl (KeyError k)"
      by auto
    then have "get_filters langs type_names lang_file = Inl (KeyError k)"
      unfolding run by simp
    moreover from s have "\<not> (\<forall>key \<in> {''schools'', ''clubs''}. group_langs_present langs lang_file key \<and> type_names key \<noteq> None)"
      unfolding cond by simp
    ultimately show ?thesis by auto
  qed
qed

theorem get_filters_result_witness:
  "\<exists>schools clubs. get_filters all_langs example_type_names example_groups = Inr [schools, clubs]
     \<and> fg_key schools = ''schools'' \<and> fg_label schools = ''School''
     \<and> fg_ids schools = [''abydos'', ''trinity'']
     \<and> map (\<lambda>nm. nm ''ko'') (fg_names schools) = [Some [], Some []]
     \<and> map (\<lambda>nm. nm ''en'') (fg_names schools) = [Some ''Abydos'', Some ''Trinity'']
     \<and> fg_flags schools = [False, False]
     \<and> fg_key clubs = ''clubs'' \<and> fg_ids clubs = [] \<and> fg_flags clubs = []"
  using get_filters_result [of all_langs example_groups example_type_names]
  by (simp add: get_filters_def filter_group_def example_groups_def example_type_names_def all_langs_def)

text \<open>
  C3 as stated fails: a school whose name mapping has no entry for \<open>ko\<close> makes
  \<^verbatim>\<open>get_filters\<close> raise KeyError; no empty string is substituted.
\<close>

theorem get_filters_absent_language_counterexample:
  "get_filters all_langs example_type_names groups_without_ko = Inl (KeyError ''ko'')"
  by (simp add: get_filters_def filter_group_def groups_without_ko_def example_type_names_def all_langs_def)

section \<open>Properties of the catalog loop\<close>

lemma avatar_loop_keeps:
  "avatar_loop E M F imgs (is, av, cf) = Inr (is', av', cf') \<Longrightarrow> map_of av n \<noteq> None \<Longrightarrow> map_of av' n \<noteq> None"
proof (induction imgs arbitrary: "is" av cf)
  case Nil
  then show ?case by simp
next
  case (Cons img imgs)
  show ?case
  proof (cases "basename img \<in> E")
    case True
    with Cons.prems(1) have "avatar_loop E M F imgs (is, av, cf) = Inr (is', av', cf')" by simp
    from Cons.IH[OF this Cons.prems(2)] show ?thesis .
  next
    case False
    with Cons.prems(1) obtain nm where
      rest: "avatar_loop E M F imgs (is @ [nm], AList.update nm (img @ ''.png'') av,
               (if endswith (basename img) ''_Collection''
                then AList.update (img @ ''.png'') [(''h_crop'', ''top'')] cf else cf)) = Inr (is', av', cf')"
      by (auto split: sum.splits if_splits)
    from Cons.prems(2) have "map_of (AList.update nm (img @ ''.png'') av) n \<noteq> None"
      by (simp add: AList.update_conv')
    from Cons.IH[OF rest this] show ?thesis .
  qed
qed

lemma avatar_loop_claims:
  "avatar_loop E M F imgs (is, av, cf) = Inr (is', av', cf') \<Longrightarrow> img \<in> set imgs \<Longrightarrow> basename img \<notin> E \<Longrightarrow>
     \<exists>nm. canonical_name M (basename img) = Inr nm \<and> nm \<noteq> [] \<and> map_of av nm = None
          \<and> map_of av' nm \<noteq> None \<and> F (img @ ''.png'')"
proof (induction imgs arbitrary: "is" av cf)
  case Nil
  then show ?case by simp
next
  case (Cons first imgs)
  show ?case
  proof (cases "basename first \<in> E")
    case True
    with Cons.prems have "avatar_loop E M F imgs (is, av, cf) = Inr (is', av', cf')" and "img \<in> set imgs"
      by auto
    from Cons.IH[OF this Cons.prems(3)] show ?thesis .
  next
    case False
    with Cons.prems(1) obtain nm where nm: "canonical_name M (basename first) = Inr nm" "nm \<noteq> []"
       "map_of av nm = None" "F (first @ ''.png'')"
      and rest: "avatar_loop E M F imgs (is @ [nm], AList.update nm (first @ ''.png'') av,
               (if endswith (basename first) ''_Collection''
                then AList.update (first @ ''.png'') [(''h_crop'', ''top'')] cf else cf)) = Inr (is', av', cf')"
      by (auto split: sum.splits if_splits)
    show ?thesis
    proof (cases "img \<in> set imgs")
      case True
      from Cons.IH[OF rest True Cons.prems(3)] obtain nm' where
        nm': "canonical_name M (basename img) = Inr nm'" "nm' \<noteq> []"
          "map_of (AList.update nm (first @ ''.png'') av) nm' = None"
          "map_of av' nm' \<noteq> None" "F (img @ ''.png'')"
        by blast
      from nm'(3) have "map_of av nm' = None"
        by (simp add: AList.update_conv' split: if_splits)
      with nm' show ?thesis by blast
    next
      case False
      with Cons.prems(2) have img: "img = first" by simp
      have "map_of (AList.update nm (first @ ''.png'') av) nm \<noteq> None"
        by (simp add: AList.update_conv')
      from avatar_loop_keeps[OF rest this] nm img show ?thesis by blast
    qed
  qed
qed

lemma avatar_loop_all_excluded:
  "\<forall>img \<in> set imgs. basename img \<in> E \<Longrightarrow> avatar_loop E M F imgs acc = Inr acc"
  by (induction imgs) (cases acc; auto)+

lemma process_char_Inr:
  assumes "process_char langs name_to_id inp data st = Inr st'"
  obtains d tr dict' updated' short imgs av cf where
    "get_default_lang_data name_to_id data = Inr d"
    "merge_translation langs (data_id data) d (translation_dict st) (updated_translations st) = Inr (tr, dict', updated')"
    "resolve_short_name langs tr = Inr short"
    "avatar_loop (excluded_portraits inp) (get_legacy_image_mappings (img_mappings inp))
             (asset_exists inp) (image_files data) ([], avatar_files st, image_config st) = Inr (imgs, av, cf)"
    "translation_dict st' = dict'" "updated_translations st' = updated'"
    "avatar_files st' = av" "image_config st' = cf"
    "result st' = result st @ [\<lparr> char_id = data_id data, names = name tr, short_names = short,
                        images = sort imgs,
                        groups = sort (map group_id
                                   (filter (\<lambda>gp. data_id data \<in> set (members gp))
                                      (club_data inp @ school_data inp))) \<rparr>]"
    "chars_without_school st' =
       (if length (filter (\<lambda>gp. data_id data \<in> set (members gp)) (school_data inp)) = 0
        then chars_without_school st @ [\<lparr> char_id = data_id data, names = name tr, short_names = short,
                        images = sort imgs,
                        groups = sort (map group_id
                                   (filter (\<lambda>gp. data_id data \<in> set (members gp))
                                      (club_data inp @ school_data inp))) \<rparr>]
        else chars_without_school st)"
    "chars_without_club st' =
       (if length (filter (\<lambda>gp. data_id data \<in> set (members gp)) (club_data inp)) = 0
        then chars_without_club st @ [\<lparr> char_id = data_id data, names = name tr, short_names = short,
                        images = sort imgs,
                        groups = sort (map group_id
                                   (filter (\<lambda>gp. data_id data \<in> set (members gp))
                                      (club_data inp @ school_data inp))) \<rparr>]
        else chars_without_club st)"
  using assms unfolding process_char_def Let_def
  by (auto split: sum.splits prod.splits)

lemma catalog_loop_append:
  "catalog_loop langs name_to_id inp (xs @ ys) st =
     (case catalog_loop langs name_to_id inp xs st of
        Inl e \<Rightarrow> Inl e
      | Inr st1 \<Rightarrow> catalog_loop langs name_to_id inp ys st1)"
  by (induction xs arbitrary: st) (auto split: sum.splits)

lemma process_char_keeps_avatar:
  assumes "process_char langs name_to_id inp data st = Inr st'"
      and "map_of (avatar_files st) n \<noteq> None"
  shows "map_of (avatar_files st') n \<noteq> None"
proof -
  from assms(1) show ?thesis
  proof (rule process_char_Inr)
    fix imgs av cf
    assume "avatar_loop (excluded_portraits inp) (get_legacy_image_mappings (img_mappings inp))
             (asset_exists inp) (image_files data) ([], avatar_files st, image_config st) = Inr (imgs, av, cf)"
       and "avatar_files st' = av"
    with avatar_loop_keeps assms(2) show ?thesis by blast
  qed
qed

lemma catalog_loop_keeps_avatar:
  "catalog_loop langs name_to_id inp datas st = Inr st' \<Longrightarrow> map_of (avatar_files st) n \<noteq> None
     \<Longrightarrow> map_of (avatar_files st') n \<noteq> None"
proof (induction datas arbitrary: st)
  case Nil
  then show ?case by simp
next
  case (Cons data datas)
  from Cons.prems(1) obtain st1 where s1: "process_char langs name_to_id inp data st = Inr st1"
    and rest: "catalog_loop langs name_to_id inp datas st1 = Inr st'"
    by (auto split: sum.splits)
  from Cons.IH[OF rest process_char_keeps_avatar[OF s1 Cons.prems(2)]] show ?case .
qed

lemma process_char_claims:
  assumes "process_char langs name_to_id inp data st = Inr st'"
      and "img \<in> set (image_files data)" and "basename img \<notin> excluded_portraits inp"
  shows "\<exists>nm. canonical_of inp img = Inr nm \<and> nm \<noteq> [] \<and> map_of (avatar_files st) nm = None
          \<and> map_of (avatar_files st') nm \<noteq> None \<and> asset_exists inp (img @ ''.png'')"
proof -
  from assms(1) show ?thesis
  proof (rule process_char_Inr)
    fix imgs av cf
    assume "avatar_loop (excluded_portraits inp) (get_legacy_image_mappings (img_mappings inp))
             (asset_exists inp) (image_files data) ([], avatar_files st, image_config st) = Inr (imgs, av, cf)"
       and "avatar_files st' = av"
    with avatar_loop_claims[OF _ assms(2,3)] show ?thesis
      unfolding canonical_of_def by blast
  qed
qed

lemma catalog_loop_at:
  assumes "catalog_loop langs name_to_id inp datas st = Inr st'" and "i < length datas"
  obtains st1 st2 where
    "catalog_loop langs name_to_id inp (take i datas) st = Inr st1"
    "process_char langs name_to_id inp (datas ! i) st1 = Inr st2"
    "catalog_loop langs name_to_id inp (drop (Suc i) datas) st2 = Inr st'"
proof -
  from assms(2) have "datas = take i datas @ (datas ! i) # drop (Suc i) datas"
    by (rule id_take_nth_drop)
  then have "catalog_loop langs name_to_id inp (take i datas @ (datas ! i) # drop (Suc i) datas) st = Inr st'"
    using assms(1) by simp
  then show ?thesis
    using that by (auto simp: catalog_loop_append split: sum.splits)
qed

lemma live_reference_claims:
  assumes "catalog_loop langs name_to_id inp (char_data inp) st = Inr st'"
      and "live_reference inp i img"
  shows "\<exists>nm. canonical_of inp img = Inr nm \<and> nm \<noteq> [] \<and> asset_exists inp (img @ ''.png'')"
proof -
  from assms(2) have i: "i < length (char_data inp)" and img: "img \<in> set (image_files (char_data inp ! i))"
    and ex: "basename img \<notin> excluded_portraits inp"
    by (simp_all add: live_reference_def)
  from assms(1) i obtain st1 st2 where "process_char langs name_to_id inp (char_data inp ! i) st1 = Inr st2"
    by (rule catalog_loop_at)
  from process_char_claims[OF this img ex] show ?thesis by blast
qed

lemma two_live_references_differ:
  assumes "catalog_loop langs name_to_id inp (char_data inp) st = Inr st'"
      and "live_reference inp i img1" and "live_reference inp j img2" and "i < j"
      and "canonical_of inp img1 = Inr nm"
  shows "canonical_of inp img2 \<noteq> Inr nm"
proof
  assume same: "canonical_of inp img2 = Inr nm"
  let ?cd = "char_data inp"
  from assms(2,3) have i: "i < length ?cd" and img1: "img1 \<in> set (image_files (?cd ! i))"
    and ex1: "basename img1 \<notin> excluded_portraits inp"
    and j: "j < length ?cd" and img2: "img2 \<in> set (image_files (?cd ! j))"
    and ex2: "basename img2 \<notin> excluded_portraits inp"
    by (simp_all add: live_reference_def)
  from assms(1) j obtain st1 st2 where
    pre: "catalog_loop langs name_to_id inp (take j ?cd) st = Inr st1"
    and at_j: "process_char langs name_to_id inp (?cd ! j) st1 = Inr st2"
    by (rule catalog_loop_at)
  from assms(4) j have i': "i < length (take j ?cd)" and nth: "take j ?cd ! i = ?cd ! i"
    by simp_all
  from pre i' obtain s1 s2 where
    at_i: "process_char langs name_to_id inp (take j ?cd ! i) s1 = Inr s2"
    and mid: "catalog_loop langs name_to_id inp (drop (Suc i) (take j ?cd)) s2 = Inr st1"
    by (rule catalog_loop_at)
  from process_char_claims[OF at_i[unfolded nth] img1 ex1] assms(5)
  have "map_of (avatar_files s2) nm \<noteq> None" by auto
  from catalog_loop_keeps_avatar[OF mid this] have "map_of (avatar_files st1) nm \<noteq> None" .
  moreover from process_char_claims[OF at_j img2 ex2] same
  have "map_of (avatar_files st1) nm = None" by auto
  ultimately show False by simp
qed

lemma py_index_Some:
  "py_index s sub = Some i \<Longrightarrow> \<exists>pre post. s = pre @ sub @ post \<and> length pre = i"
proof (induction s arbitrary: i)
  case Nil
  then show ?case by (auto split: if_splits)
next
  case (Cons c cs)
  show ?case
  proof (cases "take (length sub) (c # cs) = sub")
    case True
    with Cons.prems have "i = 0" by simp
    moreover from True have "c # cs = [] @ sub @ drop (length sub) (c # cs)"
      by (metis append_Nil append_take_drop_id)
    ultimately show ?thesis by (metis list.size(3))
  next
    case False
    with Cons.prems obtain k where k: "py_index cs sub = Some k" and i: "i = Suc k"
      by (auto)
    from Cons.IH[OF k] obtain pre post where "cs = pre @ sub @ post" "length pre = k" by blast
    then have "c # cs = (c # pre) @ sub @ post \<and> length (c # pre) = i"
      using i by simp
    then show ?thesis by blast
  qed
qed

lemma py_index_None:
  "py_index s sub = None \<Longrightarrow> \<nexists>pre post. s = pre @ sub @ post"
proof (induction s)
  case Nil
  then show ?case by (auto split: if_splits)
next
  case (Cons c cs)
  from Cons.prems have nt: "take (length sub) (c # cs) \<noteq> sub" and rest: "py_index cs sub = None"
    by (auto split: if_splits)
  show ?case
  proof
    assume "\<exists>pre post. c # cs = pre @ sub @ post"
    then obtain pre post where eq: "c # cs = pre @ sub @ post" by blast
    show False
    proof (cases pre)
      case Nil
      with eq have "take (length sub) (c # cs) = sub" by simp
      with nt show False by simp
    next
      case (Cons p pre')
      with eq have "cs = pre' @ sub @ post" by simp
      with Cons.IH[OF rest] show False by blast
    qed
  qed
qed

lemma py_index_None_iff:
  "py_index s sub = None \<longleftrightarrow> (\<nexists>pre post. s = pre @ sub @ post)"
proof
  assume "py_index s sub = None"
  then show "\<nexists>pre post. s = pre @ sub @ post" by (rule py_index_None)
next
  assume no: "\<nexists>pre post. s = pre @ sub @ post"
  show "py_index s sub = None"
  proof (cases "py_index s sub")
    case None
    then show ?thesis .
  next
    case (Some i)
    from py_index_Some[OF this] no show ?thesis by blast
  qed
qed

lemma get_chars_aborts:
  "(\<nexists>st. catalog_loop langs name_to_id inp (char_data inp) (init_state inp) = Inr st)
     \<Longrightarrow> aborts_without_output (get_chars langs name_to_id inp)"
  by (cases "catalog_loop langs name_to_id inp (char_data inp) (init_state inp)")
     (auto simp: get_chars_def aborts_without_output_def)

lemmas run_defs = get_chars_def example_inputs_def plain_char_def init_state_def load_translations_def
  process_char_def get_default_lang_data_def merge_translation_def resolve_short_name_def
  upper_first_def upper_char_def ascii_lowercase_def ascii_uppercase_def all_langs_def
  excluded_portraits_def get_legacy_image_mappings_def canonical_name_def basename_def
  store_content_def shared_names_def report_entry_def lower_def lower_char_def
  protected_ja_name_def strip_def is_space_def endswith_def Let_def

lemmas ref_defs = live_reference_def canonical_of_def example_inputs_def plain_char_def
  excluded_portraits_def get_legacy_image_mappings_def canonical_name_def basename_def
  strip_def is_space_def

text \<open>
  C1. If two live references of two different records have the same canonical name,
  the run raises and writes no file; so it does when a live reference has the empty
  canonical name, and when the file of a live reference is not on disk. Where the loop
  reaches a live reference whose non-empty canonical name is already a key of the avatar
  files, it raises the assertion error of line 126.
\<close>

theorem fatal_image_conditions:
  "(i \<noteq> j \<and> live_reference inp i img1 \<and> live_reference inp j img2
      \<and> canonical_of inp img1 = Inr nm \<and> canonical_of inp img2 = Inr nm
      \<longrightarrow> aborts_without_output (get_chars langs name_to_id inp))
   \<and> (live_reference inp i img1 \<and> canonical_of inp img1 = Inr []
      \<longrightarrow> aborts_without_output (get_chars langs name_to_id inp))
   \<and> (live_reference inp i img1 \<and> \<not> asset_exists inp (img1 @ ''.png'')
      \<longrightarrow> aborts_without_output (get_chars langs name_to_id inp))
   \<and> (basename img2 \<notin> E \<and> canonical_name M (basename img2) = Inr nm \<and> nm \<noteq> [] \<and> map_of av nm \<noteq> None
      \<longrightarrow> avatar_loop E M F (img2 # imgs) (imgs_of_char, av, cf) = Inl (AssertionError (''Duplicate: '' @ nm)))"
proof (intro conjI impI)
  assume a: "i \<noteq> j \<and> live_reference inp i img1 \<and> live_reference inp j img2
      \<and> canonical_of inp img1 = Inr nm \<and> canonical_of inp img2 = Inr nm"
  have "\<nexists>st. catalog_loop langs name_to_id inp (char_data inp) (init_state inp) = Inr st"
  proof
    assume "\<exists>st. catalog_loop langs name_to_id inp (char_data inp) (init_state inp) = Inr st"
    then obtain st where st: "catalog_loop langs name_to_id inp (char_data inp) (init_state inp) = Inr st"
      by blast
    from a have "i < j \<or> j < i" by auto
    then show False
    proof
      assume "i < j"
      from two_live_references_differ[OF st _ _ this, of img1 img2 nm] a show False by simp
    next
      assume "j < i"
      from two_live_references_differ[OF st _ _ this, of img2 img1 nm] a show False by simp
    qed
  qed
  then show "aborts_without_output (get_chars langs name_to_id inp)" by (rule get_chars_aborts)
next
  assume a: "live_reference inp i img1 \<and> canonical_of inp img1 = Inr []"
  have "\<nexists>st. catalog_loop langs name_to_id inp (char_data inp) (init_state inp) = Inr st"
  proof
    assume "\<exists>st. catalog_loop langs name_to_id inp (char_data inp) (init_state inp) = Inr st"
    then obtain st where st: "catalog_loop langs name_to_id inp (char_data inp) (init_state inp) = Inr st"
      by blast
    from live_reference_claims[OF st, of i img1] a show False by auto
  qed
  then show "aborts_without_output (get_chars langs name_to_id inp)" by (rule get_chars_aborts)
next
  assume a: "live_reference inp i img1 \<and> \<not> asset_exists inp (img1 @ ''.png'')"
  have "\<nexists>st. catalog_loop langs name_to_id inp (char_data inp) (init_state inp) = Inr st"
  proof
    assume "\<exists>st. catalog_loop langs name_to_id inp (char_data inp) (init_state inp) = Inr st"
    then obtain st where st: "catalog_loop langs name_to_id inp (char_data inp) (init_state inp) = Inr st"
      by blast
    from live_reference_claims[OF st, of i img1] a show False by auto
  qed
  then show "aborts_without_output (get_chars langs name_to_id inp)" by (rule get_chars_aborts)
next
  assume "basename img2 \<notin> E \<and> canonical_name M (basename img2) = Inr nm \<and> nm \<noteq> [] \<and> map_of av nm \<noteq> None"
  then show "avatar_loop E M F (img2 # imgs) (imgs_of_char, av, cf) = Inl (AssertionError (''Duplicate: '' @ nm))"
    by auto
qed

theorem fatal_image_conditions_witness:
  "live_reference duplicate_inputs 0 ''img/Portrait_Default''
   \<and> live_reference duplicate_inputs 1 ''alt/Portrait_Default''
   \<and> canonical_of duplicate_inputs ''img/Portrait_Default'' = Inr ''Default''
   \<and> canonical_of duplicate_inputs ''alt/Portrait_Default'' = Inr ''Default''
   \<and> aborts_without_output (get_chars all_langs id duplicate_inputs)
   \<and> get_chars all_langs id duplicate_inputs = ([], Inl (AssertionError ''Duplicate: Default''))
   \<and> live_reference empty_name_inputs 0 ''img/Portrait_''
   \<and> canonical_of empty_name_inputs ''img/Portrait_'' = Inr []
   \<and> aborts_without_output (get_chars all_langs id empty_name_inputs)
   \<and> get_chars all_langs id empty_name_inputs = ([], Inl (AssertionError []))
   \<and> live_reference missing_file_inputs 0 ''img/Portrait_Missing''
   \<and> \<not> asset_exists missing_file_inputs ''img/Portrait_Missing.png''
   \<and> aborts_without_output (get_chars all_langs id missing_file_inputs)
   \<and> get_chars all_langs id missing_file_inputs = ([], Inl (AssertionError ''img/Portrait_Missing.png''))"
proof -
  have d0: "live_reference duplicate_inputs 0 ''img/Portrait_Default''"
    by (simp add: duplicate_inputs_def ref_defs)
  have d1: "live_reference duplicate_inputs 1 ''alt/Portrait_Default''"
    by (simp add: duplicate_inputs_def ref_defs)
  have c0: "canonical_of duplicate_inputs ''img/Portrait_Default'' = Inr ''Default''"
    by (simp add: duplicate_inputs_def ref_defs)
  have c1: "canonical_of duplicate_inputs ''alt/Portrait_Default'' = Inr ''Default''"
    by (simp add: duplicate_inputs_def ref_defs)
  have e0: "live_reference empty_name_inputs 0 ''img/Portrait_''"
    by (simp add: empty_name_inputs_def ref_defs)
  have e1: "canonical_of empty_name_inputs ''img/Portrait_'' = Inr []"
    by (simp add: empty_name_inputs_def ref_defs)
  have m0: "live_reference missing_file_inputs 0 ''img/Portrait_Missing''"
    by (simp add: missing_file_inputs_def ref_defs)
  have m1: "\<not> asset_exists missing_file_inputs ''img/Portrait_Missing.png''"
    by (simp add: missing_file_inputs_def example_inputs_def)
  have a1: "aborts_without_output (get_chars all_langs id duplicate_inputs)"
    using fatal_image_conditions [of 0 1 duplicate_inputs "''img/Portrait_Default''"
            "''alt/Portrait_Default''" "''Default''" all_langs id]
      d0 d1 c0 c1 by simp
  have a2: "aborts_without_output (get_chars all_langs id empty_name_inputs)"
    using fatal_image_conditions [of 0 1 empty_name_inputs "''img/Portrait_''" _ _ all_langs id] e0 e1
    by simp
  have a3: "aborts_without_output (get_chars all_langs id missing_file_inputs)"
    using fatal_image_conditions [of 0 1 missing_file_inputs "''img/Portrait_Missing''" _ _ all_langs id] m0 m1
    by simp
  have r1: "get_chars all_langs id duplicate_inputs = ([], Inl (AssertionError ''Duplicate: Default''))"
    by (simp add: duplicate_inputs_def run_defs)
  have r2: "get_chars all_langs id empty_name_inputs = ([], Inl (AssertionError []))"
    by (simp add: empty_name_inputs_def run_defs)
  have r3: "get_chars all_langs id missing_file_inputs = ([], Inl (AssertionError ''img/Portrait_Missing.png''))"
    by (simp add: missing_file_inputs_def run_defs)
  from d0 d1 c0 c1 a1 r1 e0 e1 a2 r2 m0 m1 a3 r3 show ?thesis
    by (simp only: simp_thms)
qed

text \<open>
  C9. Let a live reference have a last segment that is no key of the legacy mapping
  and in which \<open>Portrait_\<close> does not occur. Then its canonical name is the ValueError of
  \<^verbatim>\<open>str.index\<close>, the run raises and writes no file, and where the loop reaches the
  reference it raises that ValueError.
\<close>

theorem missing_marker_aborts:
  assumes "live_reference inp i img"
      and "get_legacy_image_mappings (img_mappings inp) (basename img) = None"
      and "\<nexists>pre post. basename img = pre @ ''Portrait_'' @ post"
  shows "canonical_of inp img = Inl (ValueError ''substring not found'')
         \<and> aborts_without_output (get_chars langs name_to_id inp)
         \<and> avatar_loop (excluded_portraits inp) (get_legacy_image_mappings (img_mappings inp)) F (img # imgs) acc
             = Inl (ValueError ''substring not found'')"
proof -
  from assms(3) have "py_index (basename img) ''Portrait_'' = None"
    by (rule iffD2[OF py_index_None_iff])
  with assms(2) have c: "canonical_of inp img = Inl (ValueError ''substring not found'')"
    by (simp add: canonical_of_def canonical_name_def)
  have "\<nexists>st. catalog_loop langs name_to_id inp (char_data inp) (init_state inp) = Inr st"
  proof
    assume "\<exists>st. catalog_loop langs name_to_id inp (char_data inp) (init_state inp) = Inr st"
    then obtain st where st: "catalog_loop langs name_to_id inp (char_data inp) (init_state inp) = Inr st"
      by blast
    from live_reference_claims[OF st assms(1)] c show False by auto
  qed
  then have "aborts_without_output (get_chars langs name_to_id inp)" by (rule get_chars_aborts)
  moreover from assms(1) c
  have "avatar_loop (excluded_portraits inp) (get_legacy_image_mappings (img_mappings inp)) F (img # imgs) acc
             = Inl (ValueError ''substring not found'')"
    by (cases acc) (auto simp: live_reference_def canonical_of_def)
  ultimately show ?thesis using c by simp
qed

theorem missing_marker_aborts_witness:
  "live_reference no_marker_inputs 1 ''img/Mutsuki_Default''
   \<and> get_legacy_image_mappings (img_mappings no_marker_inputs) (basename ''img/Mutsuki_Default'') = None
   \<and> py_index (basename ''img/Mutsuki_Default'') ''Portrait_'' = None
   \<and> canonical_of no_marker_inputs ''img/Mutsuki_Default'' = Inl (ValueError ''substring not found'')
   \<and> aborts_without_output (get_chars all_langs id no_marker_inputs)
   \<and> get_chars all_langs id no_marker_inputs = ([], Inl (ValueError ''substring not found''))"
proof -
  have l: "live_reference no_marker_inputs 1 ''img/Mutsuki_Default''"
    by (simp add: no_marker_inputs_def ref_defs)
  have m: "get_legacy_image_mappings (img_mappings no_marker_inputs) (basename ''img/Mutsuki_Default'') = None"
    by (simp add: no_marker_inputs_def ref_defs)
  have p: "py_index (basename ''img/Mutsuki_Default'') ''Portrait_'' = None"
    by (simp add: basename_def)
  then have n: "\<nexists>pre post. basename ''img/Mutsuki_Default'' = pre @ ''Portrait_'' @ post"
    by (rule iffD1[OF py_index_None_iff])
  have "get_chars all_langs id no_marker_inputs = ([], Inl (ValueError ''substring not found''))"
    by (simp add: no_marker_inputs_def run_defs)
  with missing_marker_aborts [OF l m n, of all_langs id] l m p show ?thesis
    by simp
qed

section \<open>Properties of the reports\<close>

lemma merge_translation_entry:
  assumes "merge_translation langs cid d dict updated = Inr (tr, dict', updated')"
      and "name d ''ja'' \<noteq> None"
  shows "map_of dict' cid = Some tr" and "name tr ''ja'' \<noteq> None"
    and "k \<noteq> cid \<Longrightarrow> map_of dict' k = map_of dict k"
proof -
  show "map_of dict' cid = Some tr"
    using assms(1) by (auto simp: merge_translation_def AList.update_conv' split: option.splits sum.splits if_splits)
  show "k \<noteq> cid \<Longrightarrow> map_of dict' k = map_of dict k"
    using assms(1) by (auto simp: merge_translation_def AList.update_conv' split: option.splits sum.splits if_splits)
  show "name tr ''ja'' \<noteq> None"
  proof (cases "map_of dict cid")
    case None
    with assms show ?thesis by (simp add: merge_translation_def)
  next
    case (Some old)
    with assms(1) obtain tr1 u1 where b: "backfill langs d tr1 u1 = Inr (tr, updated')"
      and tr1: "name tr1 ''ja'' \<noteq> None"
      by (auto simp: merge_translation_def split: option.splits sum.splits if_splits)
    from backfill_name[OF b, of "''ja''"] tr1 show ?thesis by simp
  qed
qed

lemma process_char_listed:
  assumes "process_char langs name_to_id inp data st = Inr st'"
      and "listed_with_ja (translation_dict st) chs"
  shows "listed_with_ja (translation_dict st') chs"
    and "listed_with_ja (translation_dict st') [last (result st')]"
    and "char_id (last (result st')) = data_id data"
proof -
  from assms(1) obtain d tr dict' updated' where
    d: "get_default_lang_data name_to_id data = Inr d"
    and m: "merge_translation langs (data_id data) d (translation_dict st) (updated_translations st) = Inr (tr, dict', updated')"
    and dict': "translation_dict st' = dict'"
    and cid: "char_id (last (result st')) = data_id data"
    by (rule process_char_Inr) simp
  from default_has_ja_en[OF d] have ja: "name d ''ja'' \<noteq> None" by auto
  note e = merge_translation_entry[OF m ja]
  show "char_id (last (result st')) = data_id data" by (rule cid)
  from e(1,2) cid dict' show "listed_with_ja (translation_dict st') [last (result st')]"
    by (simp add: listed_with_ja_def)
  show "listed_with_ja (translation_dict st') chs"
    unfolding listed_with_ja_def
  proof
    fix ch assume "ch \<in> set chs"
    with assms(2) obtain t where t: "map_of (translation_dict st) (char_id ch) = Some t" "name t ''ja'' \<noteq> None"
      by (auto simp: listed_with_ja_def)
    show "\<exists>t. map_of (translation_dict st') (char_id ch) = Some t \<and> name t ''ja'' \<noteq> None"
    proof (cases "char_id ch = data_id data")
      case True
      with e(1,2) dict' show ?thesis by simp
    next
      case False
      from e(3)[OF False] t dict' show ?thesis by simp
    qed
  qed
qed

lemma process_char_appends:
  assumes "process_char langs name_to_id inp data st = Inr st'"
  obtains ch where "result st' = result st @ [ch]"
    "char_id ch = data_id data"
    "chars_without_school st' =
       (if \<forall>gp \<in> set (school_data inp). data_id data \<notin> set (members gp)
        then chars_without_school st @ [ch] else chars_without_school st)"
    "chars_without_club st' =
       (if \<forall>gp \<in> set (club_data inp). data_id data \<notin> set (members gp)
        then chars_without_club st @ [ch] else chars_without_club st)"
    "(\<forall>img \<in> set (image_files data). basename img \<in> excluded_portraits inp) \<longrightarrow> images ch = []"
proof -
  from assms show ?thesis
  proof (rule process_char_Inr)
    fix tr short imgs av cf
    let ?ch = "\<lparr> char_id = data_id data, names = name tr, short_names = short,
                        images = sort imgs,
                        groups = sort (map group_id
                                   (filter (\<lambda>gp. data_id data \<in> set (members gp))
                                      (club_data inp @ school_data inp))) \<rparr>"
    assume loop: "avatar_loop (excluded_portraits inp) (get_legacy_image_mappings (img_mappings inp))
             (asset_exists inp) (image_files data) ([], avatar_files st, image_config st) = Inr (imgs, av, cf)"
      and r: "result st' = result st @ [?ch]"
      and s: "chars_without_school st' =
       (if length (filter (\<lambda>gp. data_id data \<in> set (members gp)) (school_data inp)) = 0
        then chars_without_school st @ [?ch] else chars_without_school st)"
      and c: "chars_without_club st' =
       (if length (filter (\<lambda>gp. data_id data \<in> set (members gp)) (club_data inp)) = 0
        then chars_without_club st @ [?ch] else chars_without_club st)"
    have i: "(\<forall>img \<in> set (image_files data). basename img \<in> excluded_portraits inp) \<longrightarrow> images ?ch = []"
    proof
      assume "\<forall>img \<in> set (image_files data). basename img \<in> excluded_portraits inp"
      from avatar_loop_all_excluded[OF this, of "get_legacy_image_mappings (img_mappings inp)" "asset_exists inp"
              "([], avatar_files st, image_config st)"] loop
      show "images ?ch = []" by simp
    qed
    have eq: "(length (filter (\<lambda>gp. data_id data \<in> set (members gp)) gps) = 0)
                    = (\<forall>gp \<in> set gps. data_id data \<notin> set (members gp))" for gps
      by (simp add: filter_empty_conv)
    have s': "chars_without_school st' =
       (if \<forall>gp \<in> set (school_data inp). data_id data \<notin> set (members gp)
        then chars_without_school st @ [?ch] else chars_without_school st)"
      by (simp only: s eq)
    have c': "chars_without_club st' =
       (if \<forall>gp \<in> set (club_data inp). data_id data \<notin> set (members gp)
        then chars_without_club st @ [?ch] else chars_without_club st)"
      by (simp only: c eq)
    have "char_id ?ch = data_id data" by simp
    from r this s' c' i show ?thesis by (rule that)
  qed
qed

lemma catalog_loop_listed:
  "catalog_loop langs name_to_id inp datas st = Inr st' \<Longrightarrow>
   listed_with_ja (translation_dict st) (chars_without_school st @ chars_without_club st) \<Longrightarrow>
   listed_with_ja (translation_dict st') (chars_without_school st' @ chars_without_club st')"
proof (induction datas arbitrary: st)
  case Nil
  then show ?case by simp
next
  case (Cons data datas)
  from Cons.prems(1) obtain st1 where s1: "process_char langs name_to_id inp data st = Inr st1"
    and rest: "catalog_loop langs name_to_id inp datas st1 = Inr st'"
    by (auto split: sum.splits)
  from s1 obtain ch where ch: "result st1 = result st @ [ch]"
    "chars_without_school st1 =
       (if \<forall>gp \<in> set (school_data inp). data_id data \<notin> set (members gp)
        then chars_without_school st @ [ch] else chars_without_school st)"
    "chars_without_club st1 =
       (if \<forall>gp \<in> set (club_data inp). data_id data \<notin> set (members gp)
        then chars_without_club st @ [ch] else chars_without_club st)"
    by (rule process_char_appends)
  from process_char_listed(1)[OF s1 Cons.prems(2)] process_char_listed(2)[OF s1 Cons.prems(2)] ch
  have "listed_with_ja (translation_dict st1) (chars_without_school st1 @ chars_without_club st1)"
    by (auto simp: listed_with_ja_def)
  from Cons.IH[OF rest this] show ?case .
qed

lemma catalog_loop_lists_grow:
  "catalog_loop langs name_to_id inp datas st = Inr st' \<Longrightarrow>
   set (chars_without_school st) \<subseteq> set (chars_without_school st')
   \<and> set (chars_without_club st) \<subseteq> set (chars_without_club st')"
proof (induction datas arbitrary: st)
  case Nil
  then show ?case by simp
next
  case (Cons data datas)
  from Cons.prems(1) obtain st1 where s1: "process_char langs name_to_id inp data st = Inr st1"
    and rest: "catalog_loop langs name_to_id inp datas st1 = Inr st'"
    by (auto split: sum.splits)
  from s1 have "set (chars_without_school st) \<subseteq> set (chars_without_school st1)
   \<and> set (chars_without_club st) \<subseteq> set (chars_without_club st1)"
    by (rule process_char_appends) auto
  with Cons.IH[OF rest] show ?case by blast
qed

lemma catalog_loop_lists_member:
  assumes "catalog_loop langs name_to_id inp datas st = Inr st'"
      and "data \<in> set datas"
      and "\<forall>img \<in> set (image_files data). basename img \<in> excluded_portraits inp"
  shows "(\<forall>gp \<in> set (school_data inp). data_id data \<notin> set (members gp))
           \<longrightarrow> (\<exists>ch \<in> set (chars_without_school st'). images ch = [])"
    and "(\<forall>gp \<in> set (club_data inp). data_id data \<notin> set (members gp))
           \<longrightarrow> (\<exists>ch \<in> set (chars_without_club st'). images ch = [])"
proof -
  from assms(2) obtain i where i: "i < length datas" and di: "datas ! i = data"
    by (auto simp: in_set_conv_nth)
  from assms(1) i obtain st1 st2 where
    at: "process_char langs name_to_id inp (datas ! i) st1 = Inr st2"
    and rest: "catalog_loop langs name_to_id inp (drop (Suc i) datas) st2 = Inr st'"
    by (rule catalog_loop_at)
  from at[unfolded di] obtain ch where ch:
    "chars_without_school st2 =
       (if \<forall>gp \<in> set (school_data inp). data_id data \<notin> set (members gp)
        then chars_without_school st1 @ [ch] else chars_without_school st1)"
    "chars_without_club st2 =
       (if \<forall>gp \<in> set (club_data inp). data_id data \<notin> set (members gp)
        then chars_without_club st1 @ [ch] else chars_without_club st1)"
    "(\<forall>img \<in> set (image_files data). basename img \<in> excluded_portraits inp) \<longrightarrow> images ch = []"
    by (rule process_char_appends)
  from ch(3) assms(3) have empty: "images ch = []" by simp
  note grow = catalog_loop_lists_grow[OF rest]
  show "(\<forall>gp \<in> set (school_data inp). data_id data \<notin> set (members gp))
           \<longrightarrow> (\<exists>ch \<in> set (chars_without_school st'). images ch = [])"
  proof
    assume "\<forall>gp \<in> set (school_data inp). data_id data \<notin> set (members gp)"
    with ch(1) have "ch \<in> set (chars_without_school st2)" by simp
    with grow empty show "\<exists>ch \<in> set (chars_without_school st'). images ch = []" by blast
  qed
  show "(\<forall>gp \<in> set (club_data inp). data_id data \<notin> set (members gp))
           \<longrightarrow> (\<exists>ch \<in> set (chars_without_club st'). images ch = [])"
  proof
    assume "\<forall>gp \<in> set (club_data inp). data_id data \<notin> set (members gp)"
    with ch(2) have "ch \<in> set (chars_without_club st2)" by simp
    with grow empty show "\<exists>ch \<in> set (chars_without_club st'). images ch = []" by blast
  qed
qed

lemma write_report_errors:
  assumes "listed_with_ja dict chs"
  shows "snd (write_report (map (shared_names dict) chs) out) =
           (if \<exists>ch \<in> set chs. images ch = [] then Some (IndexError ''list index out of range'') else None)"
  using assms
proof (induction chs arbitrary: out)
  case Nil
  then show ?case by simp
next
  case (Cons ch chs)
  from Cons.prems obtain t where t: "map_of dict (char_id ch) = Some t" "name t ''ja'' \<noteq> None"
    and rest: "listed_with_ja dict chs"
    by (auto simp: listed_with_ja_def)
  from t obtain ja where ja: "names (shared_names dict ch) ''ja'' = Some ja"
    and im: "images (shared_names dict ch) = images ch"
    by (auto simp: shared_names_def)
  show ?case
  proof (cases "images ch")
    case Nil
    with ja im show ?thesis by (simp add: report_entry_def)
  next
    case (Cons a list)
    with ja im Cons.IH[OF rest] show ?thesis by (simp add: report_entry_def)
  qed
qed

text \<open>
  C10. Let a record have no school or no club, and let every one of its image
  references be excluded, so that its image list stays empty. Then the run raises. If
  the loop completes, the exception is the IndexError of \<^verbatim>\<open>char.images[0]\<close>, raised
  while a report is written: after the translation store was written, if the flag was
  set, and after at least the first report file was opened.
\<close>

theorem report_index_error:
  assumes "data \<in> set (char_data inp)"
      and "\<forall>img \<in> set (image_files data). basename img \<in> excluded_portraits inp"
      and "(\<forall>gp \<in> set (school_data inp). data_id data \<notin> set (members gp))
           \<or> (\<forall>gp \<in> set (club_data inp). data_id data \<notin> set (members gp))"
  shows "isl (snd (get_chars langs name_to_id inp))
         \<and> (\<forall>st. catalog_loop langs name_to_id inp (char_data inp) (init_state inp) = Inr st \<longrightarrow>
               snd (get_chars langs name_to_id inp) = Inl (IndexError ''list index out of range'')
               \<and> (\<exists>reports. reports \<noteq> [] \<and>
                     fst (get_chars langs name_to_id inp) =
                       (if updated_translations st
                        then [TranslationStore (store_content (translation_dict st))] else []) @ reports))"
proof (cases "catalog_loop langs name_to_id inp (char_data inp) (init_state inp)")
  case (Inl e)
  then show ?thesis by (simp add: get_chars_def)
next
  case (Inr st)
  let ?dict = "translation_dict st"
  let ?ie = "IndexError ''list index out of range''"
  let ?store = "if updated_translations st then [TranslationStore (store_content ?dict)] else []"
  let ?school = "write_report (map (shared_names ?dict) (chars_without_school st)) []"
  let ?club = "write_report (map (shared_names ?dict) (chars_without_club st)) []"
  have "listed_with_ja (translation_dict (init_state inp))
          (chars_without_school (init_state inp) @ chars_without_club (init_state inp))"
    by (simp add: init_state_def listed_with_ja_def)
  from catalog_loop_listed[OF Inr this]
  have ls: "listed_with_ja ?dict (chars_without_school st)" and lc: "listed_with_ja ?dict (chars_without_club st)"
    by (auto simp: listed_with_ja_def)
  note school = write_report_errors[OF ls, of "[]"] and club = write_report_errors[OF lc, of "[]"]
  note mem = catalog_loop_lists_member[OF Inr assms(1,2)]
  have run: "snd (get_chars langs name_to_id inp) = Inl ?ie
             \<and> (\<exists>reports. reports \<noteq> [] \<and> fst (get_chars langs name_to_id inp) = ?store @ reports)"
  proof (cases "\<exists>ch \<in> set (chars_without_school st). images ch = []")
    case True
    with school have "snd ?school = Some ?ie" by simp
    with Inr have "get_chars langs name_to_id inp =
                     (?store @ [Report ''manual/noschool.generated.txt'' (fst ?school)], Inl ?ie)"
      by (simp add: get_chars_def Let_def)
    then show ?thesis by simp
  next
    case False
    with school have s: "snd ?school = None" by simp
    from False mem(1) assms(3) have "\<forall>gp \<in> set (club_data inp). data_id data \<notin> set (members gp)"
      by blast
    with mem(2) have "\<exists>ch \<in> set (chars_without_club st). images ch = []" by blast
    with club have "snd ?club = Some ?ie" by simp
    with Inr s have "get_chars langs name_to_id inp =
                     (?store @ [Report ''manual/noschool.generated.txt'' (fst ?school),
                                Report ''manual/noclub.generated.txt'' (fst ?club)], Inl ?ie)"
      by (simp add: get_chars_def Let_def)
    then show ?thesis by simp
  qed
  with Inr show ?thesis by simp
qed

theorem report_index_error_witness:
  "plain_char ''npc_guide'' ''Guide'' [''img/Portrait_Bad''] \<in> set (char_data unlisted_inputs)
   \<and> basename ''img/Portrait_Bad'' \<in> excluded_portraits unlisted_inputs
   \<and> ''npc_guide'' \<notin> set (members (hd (school_data unlisted_inputs)))
   \<and> isl (snd (get_chars all_langs id unlisted_inputs))
   \<and> snd (get_chars all_langs id unlisted_inputs) = Inl (IndexError ''list index out of range'')
   \<and> written_files (fst (get_chars all_langs id unlisted_inputs))
        = [''lang/char.yaml'', ''manual/noschool.generated.txt'']"
proof -
  have a: "plain_char ''npc_guide'' ''Guide'' [''img/Portrait_Bad''] \<in> set (char_data unlisted_inputs)"
    by (simp add: unlisted_inputs_def example_inputs_def)
  have b: "basename ''img/Portrait_Bad'' \<in> excluded_portraits unlisted_inputs"
    by (simp add: unlisted_inputs_def ref_defs)
  then have b': "\<forall>img \<in> set (image_files (plain_char ''npc_guide'' ''Guide'' [''img/Portrait_Bad''])).
                  basename img \<in> excluded_portraits unlisted_inputs"
    by (simp add: plain_char_def)
  have c: "''npc_guide'' \<notin> set (members (hd (school_data unlisted_inputs)))"
    by (simp add: unlisted_inputs_def example_inputs_def)
  then have c': "(\<forall>gp \<in> set (school_data unlisted_inputs).
                    data_id (plain_char ''npc_guide'' ''Guide'' [''img/Portrait_Bad'']) \<notin> set (members gp))
           \<or> (\<forall>gp \<in> set (club_data unlisted_inputs).
                    data_id (plain_char ''npc_guide'' ''Guide'' [''img/Portrait_Bad'']) \<notin> set (members gp))"
    by (simp add: unlisted_inputs_def example_inputs_def plain_char_def)
  have r: "snd (get_chars all_langs id unlisted_inputs) = Inl (IndexError ''list index out of range'')"
    by (simp add: unlisted_inputs_def run_defs)
  have w: "written_files (fst (get_chars all_langs id unlisted_inputs))
        = [''lang/char.yaml'', ''manual/noschool.generated.txt'']"
    by (simp add: unlisted_inputs_def written_files_def run_defs)
  from report_index_error [OF a b' c', of all_langs id] a b c r w show ?thesis
    by simp
qed

section \<open>Properties of the translation store\<close>

lemma merge_translation_new:
  assumes "merge_translation langs cid d dict updated = Inr (tr', dict', updated')"
      and "map_of dict cid = None"
  shows "tr' = d" and "dict' = AList.update cid d dict" and "updated'"
  using assms by (auto simp: merge_translation_def)

lemma merge_translation_existing:
  assumes "merge_translation langs cid d dict updated = Inr (tr', dict', updated')"
      and "map_of dict cid = Some tr"
  obtains ja dja den where "name tr ''ja'' = Some ja" "name d ''ja'' = Some dja"
      "ja \<noteq> dja \<and> ja \<noteq> protected_ja_name" "name d ''en'' = Some den"
      "backfill langs d (tr\<lparr>name := (name tr)(''ja'' \<mapsto> dja, ''en'' \<mapsto> den)\<rparr>) True = Inr (tr', updated')"
      "dict' = AList.update cid tr' dict"
    | ja dja where "name tr ''ja'' = Some ja" "name d ''ja'' = Some dja"
      "\<not> (ja \<noteq> dja \<and> ja \<noteq> protected_ja_name)"
      "backfill langs d tr updated = Inr (tr', updated')"
      "dict' = AList.update cid tr' dict"
proof -
  from assms obtain ja dja where j: "name tr ''ja'' = Some ja" "name d ''ja'' = Some dja"
    by (auto simp: merge_translation_def split: option.splits)
  show ?thesis
  proof (cases "ja \<noteq> dja \<and> ja \<noteq> protected_ja_name")
    case True
    with assms j obtain den where "name d ''en'' = Some den"
      "backfill langs d (tr\<lparr>name := (name tr)(''ja'' \<mapsto> dja, ''en'' \<mapsto> den)\<rparr>) True = Inr (tr', updated')"
      "dict' = AList.update cid tr' dict"
      by (auto simp: merge_translation_def split: option.splits sum.splits)
    with j True show ?thesis by (rule that(1))
  next
    case False
    with assms j have "backfill langs d tr updated = Inr (tr', updated')"
      "dict' = AList.update cid tr' dict"
      by (auto simp: merge_translation_def split: option.splits sum.splits)
    with j False show ?thesis by (rule that(2))
  qed
qed


lemma merge_translation_settled:
  assumes "merge_translation langs cid d dict updated = Inr (tr', dict', updated')"
      and "\<not> needs_update langs d dict cid"
  shows "dict' = dict" and "updated' = updated"
proof -
  from assms(2) obtain tr where tr: "map_of dict cid = Some tr"
    and ja: "\<not> (name tr ''ja'' \<noteq> name d ''ja'' \<and> name tr ''ja'' \<noteq> Some protected_ja_name)"
    and all: "\<forall>lang \<in> set langs. name tr lang \<noteq> None"
    by (auto simp: needs_update_def split: option.splits)
  from assms(1) tr have "dict' = dict \<and> updated' = updated"
  proof (cases rule: merge_translation_existing)
    case (1 ja dja den)
    with ja show ?thesis by simp
  next
    case (2 ja dja)
    from backfill_unchanged[OF all, of d updated] 2(4) have "tr' = tr" "updated' = updated" by simp_all
    with 2(5) tr show ?thesis by (simp add: AList.update_triv)
  qed
  then show "dict' = dict" and "updated' = updated" by simp_all
qed

lemma fill_short_name_needs_name:
  "fill_short_name langs nm short = Inr short' \<Longrightarrow> l \<in> set langs \<Longrightarrow>
   short l = None \<or> short l = Some [] \<Longrightarrow> nm l \<noteq> None"
proof (induction langs arbitrary: short)
  case Nil
  then show ?case by simp
next
  case (Cons l0 langs)
  show ?case
  proof (cases "short l0 = None \<or> short l0 = Some []")
    case True
    with Cons.prems(1) obtain n where n: "nm l0 = Some n"
      and rest: "fill_short_name langs nm (short(l0 \<mapsto> last (py_split CHR '' '' n))) = Inr short'"
      by (auto split: option.splits)
    show ?thesis
    proof (cases "l = l0")
      case True
      with n show ?thesis by simp
    next
      case False
      with Cons.prems(2,3) have "l \<in> set langs"
        "(short(l0 \<mapsto> last (py_split CHR '' '' n))) l = None \<or> (short(l0 \<mapsto> last (py_split CHR '' '' n))) l = Some []"
        by auto
      from Cons.IH[OF rest this] show ?thesis .
    qed
  next
    case False
    with Cons.prems(1) have rest: "fill_short_name langs nm short = Inr short'" by auto
    from False Cons.prems(3) have "l \<noteq> l0" by auto
    with Cons.prems(2) have "l \<in> set langs" by simp
    from Cons.IH[OF rest this Cons.prems(3)] show ?thesis .
  qed
qed

lemma default_fields:
  assumes "get_default_lang_data name_to_id data = Inr d"
  shows "trans_id d = data_id data" and "short_name d = None"
  using assms by (auto simp: get_default_lang_data_def split: if_splits sum.splits)

lemma merge_translation_stable:
  assumes "merge_translation langs cid d dict updated = Inr (tr', dict', updated')"
      and "resolve_short_name langs tr' = Inr short"
      and "short_name d = None"
  shows "\<not> needs_update langs d dict' cid"
proof (cases "map_of dict cid")
  case None
  note new = merge_translation_new[OF assms(1) None]
  from assms(2,3) new(1) have "fill_short_name langs (name d) Map.empty = Inr short"
    by (simp add: resolve_short_name_def)
  from fill_short_name_needs_name[OF this] have "\<forall>l \<in> set langs. name d l \<noteq> None" by simp
  with new(1,2) show ?thesis
    by (simp add: needs_update_def AList.update_conv')
next
  case (Some tr)
  from assms(1) Some show ?thesis
  proof (cases rule: merge_translation_existing)
    case (1 ja dja den)
    from backfill_name[OF 1(5), of "''ja''"] 1(2) have "name tr' ''ja'' = name d ''ja''" by simp
    moreover from backfill_complete[OF 1(5)] have "\<forall>l \<in> set langs. name tr' l \<noteq> None" by blast
    ultimately show ?thesis using 1(6)
      by (simp add: needs_update_def AList.update_conv')
  next
    case (2 ja dja)
    from backfill_name[OF 2(4), of "''ja''"] 2(1) have "name tr' ''ja'' = Some ja" by simp
    moreover from backfill_complete[OF 2(4)] have "\<forall>l \<in> set langs. name tr' l \<noteq> None" by blast
    ultimately show ?thesis using 2(2,3,5)
      by (auto simp: needs_update_def AList.update_conv')
  qed
qed

lemma needs_update_cong:
  "map_of dict1 cid = map_of dict2 cid \<Longrightarrow> needs_update langs d dict1 cid = needs_update langs d dict2 cid"
  by (simp add: needs_update_def)


lemma process_char_settled:
  assumes "process_char langs name_to_id inp data st = Inr st'"
      and "get_default_lang_data name_to_id data = Inr d"
      and "\<not> needs_update langs d (translation_dict st) (data_id data)"
  shows "translation_dict st' = translation_dict st" and "updated_translations st' = updated_translations st"
proof -
  from assms(1) have "translation_dict st' = translation_dict st \<and> updated_translations st' = updated_translations st"
  proof (rule process_char_Inr)
    fix d' tr dict' updated'
    assume "get_default_lang_data name_to_id data = Inr d'"
      and m: "merge_translation langs (data_id data) d' (translation_dict st) (updated_translations st) = Inr (tr, dict', updated')"
      and u: "updated_translations st' = updated'" "translation_dict st' = dict'"
    with assms(2) have d: "d' = d" by simp
    from merge_translation_settled[OF m[unfolded d] assms(3)] u show ?thesis by simp
  qed
  then show "translation_dict st' = translation_dict st" and "updated_translations st' = updated_translations st"
    by simp_all
qed

lemma process_char_stable:
  assumes "process_char langs name_to_id inp data st = Inr st'"
      and "get_default_lang_data name_to_id data = Inr d"
  shows "\<not> needs_update langs d (translation_dict st') (data_id data)"
  using assms(1)
proof (rule process_char_Inr)
  fix d' tr dict' updated' short
  assume "get_default_lang_data name_to_id data = Inr d'"
    and m: "merge_translation langs (data_id data) d' (translation_dict st) (updated_translations st) = Inr (tr, dict', updated')"
    and r: "resolve_short_name langs tr = Inr short"
    and u: "translation_dict st' = dict'"
  with assms(2) have d: "d' = d" by simp
  from merge_translation_stable[OF m[unfolded d] r default_fields(2)[OF assms(2)]] u show ?thesis by simp
qed

lemma process_char_other_entries:
  assumes "process_char langs name_to_id inp data st = Inr st'"
      and "k \<noteq> data_id data"
  shows "map_of (translation_dict st') k = map_of (translation_dict st) k"
  using assms(1)
proof (rule process_char_Inr)
  fix d tr dict' updated'
  assume d: "get_default_lang_data name_to_id data = Inr d"
    and m: "merge_translation langs (data_id data) d (translation_dict st) (updated_translations st) = Inr (tr, dict', updated')"
    and u: "translation_dict st' = dict'"
  from default_has_ja_en[OF d] have "name d ''ja'' \<noteq> None" by auto
  from merge_translation_entry(3)[OF m this assms(2)] u show ?thesis by simp
qed

lemma catalog_loop_other_entries:
  "catalog_loop langs name_to_id inp datas st = Inr st' \<Longrightarrow> k \<notin> data_id ` set datas \<Longrightarrow>
     map_of (translation_dict st') k = map_of (translation_dict st) k"
proof (induction datas arbitrary: st)
  case Nil
  then show ?case by simp
next
  case (Cons data datas)
  from Cons.prems(1) obtain st1 where s1: "process_char langs name_to_id inp data st = Inr st1"
    and rest: "catalog_loop langs name_to_id inp datas st1 = Inr st'"
    by (auto split: sum.splits)
  from Cons.prems(2) have "k \<noteq> data_id data" "k \<notin> data_id ` set datas" by auto
  from Cons.IH[OF rest this(2)] process_char_other_entries[OF s1 this(1)] show ?case by simp
qed

lemma catalog_loop_stable:
  "catalog_loop langs name_to_id inp datas st = Inr st' \<Longrightarrow> distinct (map data_id datas) \<Longrightarrow>
   data \<in> set datas \<Longrightarrow> get_default_lang_data name_to_id data = Inr d \<Longrightarrow>
   \<not> needs_update langs d (translation_dict st') (data_id data)"
proof (induction datas arbitrary: st)
  case Nil
  then show ?case by simp
next
  case (Cons first datas)
  from Cons.prems(1) obtain st1 where s1: "process_char langs name_to_id inp first st = Inr st1"
    and rest: "catalog_loop langs name_to_id inp datas st1 = Inr st'"
    by (auto split: sum.splits)
  from Cons.prems(2) have dist: "distinct (map data_id datas)" and first: "data_id first \<notin> data_id ` set datas"
    by auto
  show ?case
  proof (cases "data \<in> set datas")
    case True
    from Cons.IH[OF rest dist True Cons.prems(4)] show ?thesis .
  next
    case False
    with Cons.prems(3) have eq: "data = first" by simp
    from process_char_stable[OF s1 Cons.prems(4)[unfolded eq]]
    have "\<not> needs_update langs d (translation_dict st1) (data_id first)" .
    moreover from catalog_loop_other_entries[OF rest first]
    have "map_of (translation_dict st') (data_id first) = map_of (translation_dict st1) (data_id first)" .
    ultimately show ?thesis
      using needs_update_cong[of "translation_dict st'" "data_id first" "translation_dict st1" langs d] eq
      by simp
  qed
qed

lemma catalog_loop_settled:
  "catalog_loop langs name_to_id inp datas st = Inr st' \<Longrightarrow>
   (\<And>data d. data \<in> set datas \<Longrightarrow> get_default_lang_data name_to_id data = Inr d \<Longrightarrow>
       \<not> needs_update langs d (translation_dict st) (data_id data)) \<Longrightarrow>
   translation_dict st' = translation_dict st \<and> updated_translations st' = updated_translations st"
proof (induction datas arbitrary: st)
  case Nil
  then show ?case by simp
next
  case (Cons first datas)
  from Cons.prems(1) obtain st1 where s1: "process_char langs name_to_id inp first st = Inr st1"
    and rest: "catalog_loop langs name_to_id inp datas st1 = Inr st'"
    by (auto split: sum.splits)
  from s1 obtain d where d: "get_default_lang_data name_to_id first = Inr d"
    by (rule process_char_Inr)
  from Cons.prems(2)[OF _ d] have "\<not> needs_update langs d (translation_dict st) (data_id first)" by simp
  note same = process_char_settled[OF s1 d this]
  have "translation_dict st' = translation_dict st1 \<and> updated_translations st' = updated_translations st1"
  proof (rule Cons.IH[OF rest])
    fix data d' assume "data \<in> set datas" "get_default_lang_data name_to_id data = Inr d'"
    with Cons.prems(2)[of data d'] same(1)
    show "\<not> needs_update langs d' (translation_dict st1) (data_id data)" by simp
  qed
  with same show ?case by simp
qed

lemma update_new_key: "k \<notin> fst ` set al \<Longrightarrow> AList.update k v al = al @ [(k, v)]"
  by (induction al) auto

lemma set_update_subset: "set (AList.update k v al) \<subseteq> insert (k, v) (set al)"
  by (induction al) auto

lemma dict_ok_update:
  assumes "dict_ok dict" and "trans_id t = k"
  shows "dict_ok (AList.update k t dict)"
proof -
  from assms(1) have "distinct (map fst (AList.update k t dict))"
    by (simp add: dict_ok_def AList.distinct_update)
  moreover have "\<forall>(k', t') \<in> set (AList.update k t dict). trans_id t' = k'"
    using set_update_subset[of k t dict] assms by (auto simp: dict_ok_def)
  ultimately show ?thesis by (simp add: dict_ok_def)
qed

lemma dict_ok_fold:
  "dict_ok acc \<Longrightarrow> dict_ok (fold (\<lambda>t d. AList.update (trans_id t) t d) ts acc)"
  by (induction ts arbitrary: acc) (simp_all add: dict_ok_update)

lemma dict_ok_load: "dict_ok (load_translations ts)"
  unfolding load_translations_def by (rule dict_ok_fold) (simp add: dict_ok_def)

lemma fold_update_distinct:
  "distinct (map trans_id ts) \<Longrightarrow> trans_id ` set ts \<inter> fst ` set acc = {} \<Longrightarrow>
   fold (\<lambda>t d. AList.update (trans_id t) t d) ts acc = acc @ map (\<lambda>t. (trans_id t, t)) ts"
proof (induction ts arbitrary: acc)
  case Nil
  then show ?case by simp
next
  case (Cons t ts)
  from Cons.prems(2) have new: "trans_id t \<notin> fst ` set acc" by auto
  then have u: "AList.update (trans_id t) t acc = acc @ [(trans_id t, t)]"
    by (rule update_new_key)
  from Cons.prems have "distinct (map trans_id ts)"
    and "trans_id ` set ts \<inter> fst ` set (acc @ [(trans_id t, t)]) = {}"
    by auto
  from Cons.IH[OF this] u show ?case by simp
qed

lemma load_translations_distinct:
  "distinct (map trans_id ts) \<Longrightarrow> load_translations ts = map (\<lambda>t. (trans_id t, t)) ts"
  unfolding load_translations_def using fold_update_distinct[of ts "[]"] by simp

lemma dict_ok_values:
  assumes "dict_ok dict"
  shows "map trans_id (map snd dict) = map fst dict"
    and "map (\<lambda>t. (trans_id t, t)) (map snd dict) = dict"
  using assms by (auto simp: dict_ok_def intro!: map_idI)

lemma store_content_distinct:
  assumes "dict_ok dict"
  shows "distinct (map trans_id (store_content dict))"
proof -
  from assms have "distinct (map trans_id (map snd dict))"
    by (simp only: dict_ok_values(1)[OF assms]) (simp add: dict_ok_def)
  then have "distinct (map snd dict)" and "inj_on trans_id (set (map snd dict))"
    by (simp_all only: distinct_map)
  then show ?thesis
    unfolding store_content_def by (simp only: distinct_map distinct_sort set_sort simp_thms)
qed

lemma reload_store:
  assumes "dict_ok dict"
  shows "map_of (load_translations (store_content dict)) = map_of dict"
proof -
  let ?pairs = "map (\<lambda>t. (trans_id t, t)) (store_content dict)"
  note d = store_content_distinct[OF assms]
  have "set ?pairs = (\<lambda>t. (trans_id t, t)) ` set (map snd dict)"
    by (simp add: store_content_def)
  also have "\<dots> = set (map (\<lambda>t. (trans_id t, t)) (map snd dict))"
    by (simp only: set_map)
  also have "\<dots> = set dict"
    by (simp only: dict_ok_values(2)[OF assms])
  finally have "set ?pairs = set dict" .
  moreover have "distinct (map fst ?pairs)"
    using d by (simp add: comp_def)
  moreover from assms have "distinct (map fst dict)"
    by (simp add: dict_ok_def)
  ultimately have "map_of ?pairs = map_of dict"
    by (simp add: map_of_inject_set)
  with load_translations_distinct[OF d] show ?thesis by simp
qed

lemma merge_translation_dict_ok:
  assumes "merge_translation langs cid d dict updated = Inr (tr', dict', updated')"
      and "dict_ok dict" and "trans_id d = cid"
  shows "dict_ok dict'"
proof (cases "map_of dict cid")
  case None
  from merge_translation_new(2)[OF assms(1) None] assms(2,3) show ?thesis
    by (simp add: dict_ok_update)
next
  case (Some tr)
  from map_of_SomeD[OF Some] assms(2) have id: "trans_id tr = cid"
    by (auto simp: dict_ok_def)
  from assms(1) Some show ?thesis
  proof (cases rule: merge_translation_existing)
    case (1 ja dja den)
    from backfill_fields[OF 1(5)] id 1(6) assms(2) show ?thesis
      by (simp add: dict_ok_update)
  next
    case (2 ja dja)
    from backfill_fields[OF 2(4)] id 2(5) assms(2) show ?thesis
      by (simp add: dict_ok_update)
  qed
qed

lemma process_char_dict_ok:
  assumes "process_char langs name_to_id inp data st = Inr st'" and "dict_ok (translation_dict st)"
  shows "dict_ok (translation_dict st')"
  using assms(1)
proof (rule process_char_Inr)
  fix d tr dict' updated'
  assume d: "get_default_lang_data name_to_id data = Inr d"
    and m: "merge_translation langs (data_id data) d (translation_dict st) (updated_translations st) = Inr (tr, dict', updated')"
    and u: "translation_dict st' = dict'"
  from merge_translation_dict_ok[OF m assms(2) default_fields(1)[OF d]] u show ?thesis by simp
qed

lemma catalog_loop_dict_ok:
  "catalog_loop langs name_to_id inp datas st = Inr st' \<Longrightarrow> dict_ok (translation_dict st)
     \<Longrightarrow> dict_ok (translation_dict st')"
proof (induction datas arbitrary: st)
  case Nil
  then show ?case by simp
next
  case (Cons data datas)
  from Cons.prems(1) obtain st1 where s1: "process_char langs name_to_id inp data st = Inr st1"
    and rest: "catalog_loop langs name_to_id inp datas st1 = Inr st'"
    by (auto split: sum.splits)
  from Cons.IH[OF rest process_char_dict_ok[OF s1 Cons.prems(2)]] show ?case .
qed



lemma get_chars_written:
  assumes "catalog_loop langs name_to_id inp (char_data inp) (init_state inp) = Inr st"
  shows "\<exists>reports. fst (get_chars langs name_to_id inp) =
            (if updated_translations st then [TranslationStore (store_content (translation_dict st))] else [])
              @ reports
          \<and> (\<forall>r \<in> set reports. \<exists>file text. r = Report file text)"
  using assms by (auto simp: get_chars_def Let_def split: option.splits)

lemma get_chars_store:
  assumes "catalog_loop langs name_to_id inp (char_data inp) (init_state inp) = Inr st"
  shows "TranslationStore ts \<in> set (fst (get_chars langs name_to_id inp)) \<longleftrightarrow>
           updated_translations st \<and> ts = store_content (translation_dict st)"
    and "store_after store (fst (get_chars langs name_to_id inp)) =
           (if updated_translations st then store_content (translation_dict st) else store)"
proof -
  from get_chars_written[OF assms] obtain reports where
    w: "fst (get_chars langs name_to_id inp) =
            (if updated_translations st then [TranslationStore (store_content (translation_dict st))] else [])
              @ reports"
    and r: "\<forall>r \<in> set reports. \<exists>file text. r = Report file text"
    by blast
  from r have none: "TranslationStore ts \<notin> set reports" by auto
  from r have keep: "fold (\<lambda>w s. case w of TranslationStore ts \<Rightarrow> ts | Report file text \<Rightarrow> s) reports s = s" for s
    by (induction reports arbitrary: s) auto
  from w none show "TranslationStore ts \<in> set (fst (get_chars langs name_to_id inp)) \<longleftrightarrow>
           updated_translations st \<and> ts = store_content (translation_dict st)"
    by auto
  from w keep show "store_after store (fst (get_chars langs name_to_id inp)) =
           (if updated_translations st then store_content (translation_dict st) else store)"
    by (simp add: store_after_def)
qed

lemma get_chars_no_store:
  assumes "\<nexists>st. catalog_loop langs name_to_id inp (char_data inp) (init_state inp) = Inr st"
  shows "fst (get_chars langs name_to_id inp) = []"
  using get_chars_aborts[OF assms] by (simp add: aborts_without_output_def)


lemma store_writes_empty_iff:
  "store_writes ws = [] \<longleftrightarrow> (\<forall>ts. TranslationStore ts \<notin> set ws)"
  by (induction ws) (auto simp: store_writes_def split: written.splits)

lemmas rerun_defs = second_run_inputs_def store_after_def fresh_inputs_def settled_inputs_def
  repeated_id_inputs_def plain_entry_def written_files_def store_writes_def



lemma process_char_char_yaml:
  "process_char langs name_to_id (inp\<lparr>char_yaml := y\<rparr>) data st = process_char langs name_to_id inp data st"
  by (simp add: process_char_def excluded_portraits_def cong: sum.case_cong prod.case_cong)

lemma catalog_loop_char_yaml:
  "catalog_loop langs name_to_id (inp\<lparr>char_yaml := y\<rparr>) datas st = catalog_loop langs name_to_id inp datas st"
  by (induction datas arbitrary: st) (simp_all add: process_char_char_yaml cong: sum.case_cong)

text \<open>
  C2, as amended. When the ids of the character records are pairwise distinct, a
  second run on the same inputs, with the translation store as the first run left it,
  does not write the translation store.
\<close>

theorem second_run_writes_no_store:
  assumes "distinct (map data_id (char_data inp))"
  shows "\<forall>ts. TranslationStore ts \<notin> set (fst (get_chars langs name_to_id (second_run_inputs langs name_to_id inp)))"
proof (cases "\<exists>st. catalog_loop langs name_to_id inp (char_data inp) (init_state inp) = Inr st")
  case False
  from get_chars_no_store[OF False] have "second_run_inputs langs name_to_id inp = inp"
    by (simp add: second_run_inputs_def store_after_def)
  with get_chars_no_store[OF False] show ?thesis by simp
next
  case True
  then obtain st where st: "catalog_loop langs name_to_id inp (char_data inp) (init_state inp) = Inr st"
    by blast
  show ?thesis
  proof (cases "updated_translations st")
    case False
    with get_chars_store(2)[OF st, of "char_yaml inp"] have "second_run_inputs langs name_to_id inp = inp"
      by (simp add: second_run_inputs_def)
    with get_chars_store(1)[OF st] False show ?thesis by simp
  next
    case updated: True
    let ?inp = "inp\<lparr>char_yaml := store_content (translation_dict st)\<rparr>"
    from get_chars_store(2)[OF st, of "char_yaml inp"] updated
    have second: "second_run_inputs langs name_to_id inp = ?inp"
      by (simp add: second_run_inputs_def)
    have "dict_ok (translation_dict (init_state inp))"
      by (simp add: init_state_def dict_ok_load)
    from catalog_loop_dict_ok[OF st this] have ok: "dict_ok (translation_dict st)" .
    have dict2: "map_of (translation_dict (init_state ?inp)) = map_of (translation_dict st)"
      using reload_store[OF ok] by (simp add: init_state_def)
    show ?thesis
    proof (cases "\<exists>st2. catalog_loop langs name_to_id ?inp (char_data ?inp) (init_state ?inp) = Inr st2")
      case False
      from get_chars_no_store[OF False] second show ?thesis by simp
    next
      case True
      then obtain st2 where st2: "catalog_loop langs name_to_id ?inp (char_data ?inp) (init_state ?inp) = Inr st2"
        by blast
      then have loop2: "catalog_loop langs name_to_id inp (char_data inp) (init_state ?inp) = Inr st2"
        by (simp add: catalog_loop_char_yaml)
      have "translation_dict st2 = translation_dict (init_state ?inp)
            \<and> updated_translations st2 = updated_translations (init_state ?inp)"
      proof (rule catalog_loop_settled[OF loop2])
        fix data d
        assume "data \<in> set (char_data inp)" and "get_default_lang_data name_to_id data = Inr d"
        from catalog_loop_stable[OF st assms this]
        have "\<not> needs_update langs d (translation_dict st) (data_id data)" .
        with needs_update_cong[of "translation_dict (init_state ?inp)" "data_id data" "translation_dict st" langs d]
          dict2
        show "\<not> needs_update langs d (translation_dict (init_state ?inp)) (data_id data)"
          by simp
      qed
      then have "\<not> updated_translations st2"
        by (simp add: init_state_def)
      with get_chars_store(1)[OF st2] second show ?thesis by simp
    qed
  qed
qed

theorem second_run_writes_no_store_witness:
  "distinct (map data_id (char_data fresh_inputs))
   \<and> store_writes (fst (get_chars all_langs id fresh_inputs)) = [[''alpha'', ''Beta'', ''Zeta'']]
   \<and> map trans_id (char_yaml (second_run_inputs all_langs id fresh_inputs)) = [''alpha'', ''Beta'', ''Zeta'']
   \<and> store_writes (fst (get_chars all_langs id (second_run_inputs all_langs id fresh_inputs))) = []
   \<and> written_files (fst (get_chars all_langs id (second_run_inputs all_langs id fresh_inputs)))
        = [''manual/noschool.generated.txt'', ''manual/noclub.generated.txt'']"
proof -
  have d: "distinct (map data_id (char_data fresh_inputs))"
    by (simp add: fresh_inputs_def example_inputs_def)
  have w1: "store_writes (fst (get_chars all_langs id fresh_inputs)) = [[''alpha'', ''Beta'', ''Zeta'']]"
    by (simp add: rerun_defs run_defs)
  have s: "map trans_id (char_yaml (second_run_inputs all_langs id fresh_inputs)) = [''alpha'', ''Beta'', ''Zeta'']"
    by (simp add: rerun_defs run_defs)
  have f2: "written_files (fst (get_chars all_langs id (second_run_inputs all_langs id fresh_inputs)))
        = [''manual/noschool.generated.txt'', ''manual/noclub.generated.txt'']"
    by (simp add: rerun_defs run_defs)
  from second_run_writes_no_store [OF d, of all_langs id]
  have w2: "store_writes (fst (get_chars all_langs id (second_run_inputs all_langs id fresh_inputs))) = []"
    by (simp add: store_writes_empty_iff)
  from d w1 s w2 f2 show ?thesis
    by (simp only: simp_thms)
qed

text \<open>
  C2 as stated fails: with two records of the same id and different personal names,
  each run refreshes the Japanese name twice, and the second run writes the store again.
\<close>

theorem second_run_repeated_id_counterexample:
  "store_writes (fst (get_chars all_langs id repeated_id_inputs)) = [[''aru'']]
   \<and> store_writes (fst (get_chars all_langs id (second_run_inputs all_langs id repeated_id_inputs))) = [[''aru'']]"
  by (simp add: rerun_defs run_defs)

end
